theory Spec2Isabelle
  imports Main "HOL-Library.Word" "HOL-Library.Sublist" "HOL-Library.Multiset"
begin

section \<open>Strings of the page\<close>

text \<open>
  The events page (\<^verbatim>\<open>apps/web/app/events/page.tsx\<close>) works on ECMAScript strings:
  sequences of 16-bit code units. \<open>length\<close> is the \<^verbatim>\<open>.length\<close> of the source.
  \<open>js\<close> writes a literal whose code units are below 0x100.
\<close>

type_synonym code_unit = "16 word"
type_synonym jsstring = "code_unit list"

definition js :: "string \<Rightarrow> jsstring" where
  "js s = map of_char s"

text \<open>
  \<^verbatim>\<open>String.prototype.trim\<close> strips the code points of WhiteSpace and LineTerminator from
  both ends: TAB, LF, VT, FF, CR, SP, NBSP, the space separators (U+1680, U+2000..U+200A,
  U+202F, U+205F, U+3000), LS, PS and ZWNBSP. All of them are single code units.
\<close>

definition isWhiteSpace :: "code_unit \<Rightarrow> bool" where
  "isWhiteSpace c =
     (c = 0x0009 \<or> c = 0x000A \<or> c = 0x000B \<or> c = 0x000C \<or> c = 0x000D \<or> c = 0x0020 \<or>
      c = 0x00A0 \<or> c = 0x1680 \<or> (0x2000 \<le> c \<and> c \<le> 0x200A) \<or> c = 0x2028 \<or>
      c = 0x2029 \<or> c = 0x202F \<or> c = 0x205F \<or> c = 0x3000 \<or> c = 0xFEFF)"

definition trimStart :: "jsstring \<Rightarrow> jsstring" where
  "trimStart s = dropWhile isWhiteSpace s"

definition trimEnd :: "jsstring \<Rightarrow> jsstring" where
  "trimEnd s = rev (dropWhile isWhiteSpace (rev s))"

definition trim :: "jsstring \<Rightarrow> jsstring" where
  "trim s = trimEnd (trimStart s)"

text \<open>
  \<^verbatim>\<open>s.includes(q)\<close>: \<open>q\<close> occurs in \<open>s\<close> at some position, code unit by code unit.
\<close>

fun str_includes :: "jsstring \<Rightarrow> jsstring \<Rightarrow> bool" where
  "str_includes [] q = (q = [])"
| "str_includes (c # s) q = (prefix q (c # s) \<or> str_includes s q)"

text \<open>\<^verbatim>\<open>s.slice(a, b)\<close> for indices that are not negative.\<close>

definition slice :: "nat \<Rightarrow> nat \<Rightarrow> jsstring \<Rightarrow> jsstring" where
  "slice a b s = take (b - a) (drop a s)"

text \<open>The decimal digits of a natural number, as a template literal prints an integer.\<close>

fun decimal :: "nat \<Rightarrow> jsstring" where
  "decimal n =
     (if n < 10 then [0x30 + of_nat n]
      else decimal (n div 10) @ [0x30 + of_nat (n mod 10)])"

declare decimal.simps [simp del]

section \<open>The platform\<close>

text \<open>
  Four functions of the page are the browser's and depend on its locale, its Unicode
  tables or its engine: \<^verbatim>\<open>localeCompare\<close>, \<^verbatim>\<open>toLowerCase\<close>, the parsing of
  \<^verbatim>\<open>new Date(string)\<close> and \<^verbatim>\<open>toLocaleDateString\<close>. They are parameters of the model.
  \<open>Date_parse\<close> gives the time value of \<^verbatim>\<open>new Date(s)\<close> in milliseconds, \<open>None\<close> for NaN.
  \<open>toLocaleDateString\<close> is the call of the source with its fixed options; \<open>Inl\<close> is a
  thrown exception.
\<close>

datatype js_error = RangeError | TypeError

record platform =
  localeCompare :: "jsstring \<Rightarrow> jsstring \<Rightarrow> int"
  toLowerCase :: "jsstring \<Rightarrow> jsstring"
  Date_parse :: "jsstring \<Rightarrow> int option"
  toLocaleDateString :: "int \<Rightarrow> js_error + jsstring"

text \<open>
  What \<^verbatim>\<open>generateId\<close> reads from its environment at one call: the result of
  \<^verbatim>\<open>crypto.randomUUID()\<close> (\<open>None\<close> when \<^verbatim>\<open>crypto\<close> is undefined or has no
  \<^verbatim>\<open>randomUUID\<close>), \<^verbatim>\<open>Date.now()\<close>, and \<^verbatim>\<open>Math.random().toString(36)\<close>.
\<close>

record id_source =
  randomUUID :: "jsstring option"
  Date_now :: nat
  Math_random_36 :: jsstring

definition generateId :: "id_source \<Rightarrow> jsstring" where
  "generateId src =
     (case randomUUID src of
        Some u \<Rightarrow> u
      | None \<Rightarrow> decimal (Date_now src) @ js ''_'' @ slice 2 10 (Math_random_36 src))"

section \<open>The event store\<close>

text \<open>
  \<^verbatim>\<open>EventItem\<close> has the fields \<^verbatim>\<open>id\<close>, \<^verbatim>\<open>name\<close> and \<^verbatim>\<open>date\<close>; they are
  \<open>e_id\<close>, \<open>e_name\<close> and \<open>e_date\<close> here.
\<close>

record EventItem =
  e_id :: jsstring
  e_name :: jsstring
  e_date :: jsstring

record EventsState =
  events :: "EventItem list"
  search :: jsstring

definition initial_state :: EventsState where
  "initial_state = \<lparr>events = [], search = []\<rparr>"

definition setSearch :: "jsstring \<Rightarrow> EventsState \<Rightarrow> EventsState" where
  "setSearch q state = state\<lparr>search := q\<rparr>"

definition addEvent :: "id_source \<Rightarrow> jsstring \<Rightarrow> jsstring \<Rightarrow> EventsState \<Rightarrow> EventsState" where
  "addEvent src name date state =
     state\<lparr>events := events state @ [\<lparr>e_id = generateId src, e_name = trim name, e_date = date\<rparr>]\<rparr>"

definition deleteEvent :: "jsstring \<Rightarrow> EventsState \<Rightarrow> EventsState" where
  "deleteEvent i state = state\<lparr>events := filter (\<lambda>e. e_id e \<noteq> i) (events state)\<rparr>"

text \<open>
  The store changes only through its three actions. \<open>dispatch\<close> applies one of them;
  a reachable state is \<open>foldl dispatch initial_state acts\<close>. \<open>AddEvent\<close> carries what
  \<^verbatim>\<open>generateId\<close> reads at that call.
\<close>

datatype action =
  AddEvent id_source jsstring jsstring
| DeleteEvent jsstring
| SetSearch jsstring

fun dispatch :: "EventsState \<Rightarrow> action \<Rightarrow> EventsState" where
  "dispatch state (AddEvent src name date) = addEvent src name date state"
| "dispatch state (DeleteEvent i) = deleteEvent i state"
| "dispatch state (SetSearch q) = setSearch q state"

text \<open>
  The id sources of the \<open>AddEvent\<close> actions of a run, in order, and what
  \<^verbatim>\<open>generateId\<close> reads of one: the UUID, or the millisecond of \<^verbatim>\<open>Date.now()\<close>
  with the eight digits it slices from \<^verbatim>\<open>Math.random().toString(36)\<close>. A UUID is
  written with hexadecimal digits and hyphens, so it holds no underscore.
\<close>

fun add_sources :: "action list \<Rightarrow> id_source list" where
  "add_sources [] = []"
| "add_sources (AddEvent src name date # acts) = src # add_sources acts"
| "add_sources (a # acts) = add_sources acts"

definition id_reading :: "id_source \<Rightarrow> jsstring + nat \<times> jsstring" where
  "id_reading src =
     (case randomUUID src of
        Some u \<Rightarrow> Inl u
      | None \<Rightarrow> Inr (Date_now src, slice 2 10 (Math_random_36 src)))"

definition uuid_without_underscore :: "id_source \<Rightarrow> bool" where
  "uuid_without_underscore src =
     (case randomUUID src of Some u \<Rightarrow> 0x5F \<notin> set u | None \<Rightarrow> True)"

section \<open>The derived view\<close>

text \<open>
  \<^verbatim>\<open>Array.prototype.sort\<close> with a comparator. For a consistent comparator ECMAScript
  fixes the result: the elements in ascending order, those that compare equal in their
  original order (the sort is stable). Insertion from the right, each element placed
  before the first one it does not exceed, computes that result. For a comparator that
  is not consistent ECMAScript leaves the order to the implementation.
\<close>

fun insert_sorted :: "('a \<Rightarrow> 'a \<Rightarrow> int) \<Rightarrow> 'a \<Rightarrow> 'a list \<Rightarrow> 'a list" where
  "insert_sorted comparefn x [] = [x]"
| "insert_sorted comparefn x (y # ys) =
     (if comparefn x y \<le> 0 then x # y # ys else y # insert_sorted comparefn x ys)"

definition Array_sort :: "('a \<Rightarrow> 'a \<Rightarrow> int) \<Rightarrow> 'a list \<Rightarrow> 'a list" where
  "Array_sort comparefn xs = foldr (insert_sorted comparefn) xs []"

text \<open>
  \<^verbatim>\<open>filteredEvents\<close>, the memoised view of \<^verbatim>\<open>events\<close> and \<^verbatim>\<open>search\<close>: the copy of
  the events sorted by \<^verbatim>\<open>a.date.localeCompare(b.date)\<close>, all of it when \<open>q\<close> is the
  empty string (\<^verbatim>\<open>!q\<close>), else the events whose lowercased name includes \<open>q\<close>.
\<close>

definition filteredEvents :: "platform \<Rightarrow> EventItem list \<Rightarrow> jsstring \<Rightarrow> EventItem list" where
  "filteredEvents pf evs srch =
     (let q = toLowerCase pf (trim srch);
          base = Array_sort (\<lambda>a b. localeCompare pf (e_date a) (e_date b)) evs
      in if q = [] then base
         else filter (\<lambda>e. str_includes (toLowerCase pf (e_name e)) q) base)"

section \<open>The form\<close>

text \<open>
  \<^verbatim>\<open>isValidISODate\<close>: the test of \<^verbatim>\<open>/^\d{4}-\d{2}-\d{2}$/\<close> (ten code units, ASCII
  digits around two hyphens), then \<^verbatim>\<open>new Date(v)\<close> must not be NaN.
\<close>

definition isDigit :: "code_unit \<Rightarrow> bool" where
  "isDigit c = (0x30 \<le> c \<and> c \<le> 0x39)"

definition iso_pattern_test :: "jsstring \<Rightarrow> bool" where
  "iso_pattern_test v =
     (length v = 10
      \<and> list_all isDigit (take 4 v) \<and> v ! 4 = 0x2D
      \<and> list_all isDigit (take 2 (drop 5 v)) \<and> v ! 7 = 0x2D
      \<and> list_all isDigit (take 2 (drop 8 v)))"

definition isValidISODate :: "platform \<Rightarrow> jsstring \<Rightarrow> bool" where
  "isValidISODate pf v =
     (if \<not> iso_pattern_test v then False else Date_parse pf v \<noteq> None)"

record FormValues =
  f_name :: jsstring
  f_date :: jsstring

definition defaultValues :: FormValues where
  "defaultValues = \<lparr>f_name = [], f_date = []\<rparr>"

text \<open>
  The rules given to \<^verbatim>\<open>register("name", ...)\<close> and \<^verbatim>\<open>register("date", ...)\<close>, as
  react-hook-form evaluates them on submit: \<^verbatim>\<open>required\<close> first (the value is the empty
  string), then \<^verbatim>\<open>maxLength\<close> (on the value as typed), then \<^verbatim>\<open>validate\<close>. The result
  is the field's error message, \<open>None\<close> when the field passes.
\<close>

definition register_name :: "jsstring \<Rightarrow> jsstring option" where
  "register_name v =
     (if v = [] then Some (js ''Event name is required'')
      else if length v > 200 then Some (js ''Max 200 characters'')
      else if length (trim v) \<noteq> 0 then None
      else Some (js ''Event name cannot be empty''))"

definition register_date :: "platform \<Rightarrow> jsstring \<Rightarrow> jsstring option" where
  "register_date pf v =
     (if v = [] then Some (js ''Date is required'')
      else if isValidISODate pf v then None
      else Some (js ''Invalid date''))"

text \<open>
  \<^verbatim>\<open>onSubmit\<close> returns the store and the form values it leaves: unchanged on the early
  return, else the store after \<^verbatim>\<open>addEvent\<close> and the form after \<^verbatim>\<open>reset()\<close>.
\<close>

definition onSubmit :: "id_source \<Rightarrow> FormValues \<Rightarrow> EventsState \<Rightarrow> EventsState \<times> FormValues" where
  "onSubmit src data state =
     (let trimmed = trim (f_name data)
      in if trimmed = [] \<or> f_date data = [] then (state, data)
         else (addEvent src trimmed (f_date data) state, defaultValues))"

text \<open>
  \<^verbatim>\<open>handleSubmit(onSubmit)\<close>: with a field error \<^verbatim>\<open>onSubmit\<close> is not called and the
  store is not touched (\<open>Blocked\<close>, with the errors of name and date); otherwise
  \<^verbatim>\<open>onSubmit\<close> runs (\<open>Submitted\<close>, with what it leaves).
\<close>

datatype submit_outcome =
  Blocked "jsstring option" "jsstring option"
| Submitted EventsState FormValues

definition handleSubmit ::
  "platform \<Rightarrow> id_source \<Rightarrow> FormValues \<Rightarrow> EventsState \<Rightarrow> submit_outcome" where
  "handleSubmit pf src data state =
     (case (register_name (f_name data), register_date pf (f_date data)) of
        (None, None) \<Rightarrow> (case onSubmit src data state of (state', data') \<Rightarrow> Submitted state' data')
      | (en, ed) \<Rightarrow> Blocked en ed)"

section \<open>Display of a date\<close>

text \<open>
  \<^verbatim>\<open>formatDate\<close>: \<open>formatDate_try\<close> is the body of the \<^verbatim>\<open>try\<close>, which may throw;
  the \<^verbatim>\<open>catch\<close> returns the string as stored.
\<close>

definition formatDate_try :: "platform \<Rightarrow> jsstring \<Rightarrow> js_error + jsstring" where
  "formatDate_try pf isoDate =
     (case Date_parse pf isoDate of
        None \<Rightarrow> Inr isoDate
      | Some d \<Rightarrow> toLocaleDateString pf d)"

definition formatDate :: "platform \<Rightarrow> jsstring \<Rightarrow> jsstring" where
  "formatDate pf isoDate =
     (case formatDate_try pf isoDate of Inr s \<Rightarrow> s | Inl err \<Rightarrow> isoDate)"

section \<open>Persistence\<close>

text \<open>
  The store is wrapped in zustand's \<^verbatim>\<open>persist\<close> with the options \<^verbatim>\<open>name\<close>,
  \<^verbatim>\<open>partialize\<close> and \<^verbatim>\<open>version: 1\<close>. After every change the middleware stores, under
  the key \<^verbatim>\<open>name\<close>, the value \<^verbatim>\<open>{state: partialize(state), version: 1}\<close> as JSON. JSON
  values are modelled as a datatype; the text between \<^verbatim>\<open>JSON.stringify\<close> and
  \<^verbatim>\<open>JSON.parse\<close> is not.
\<close>

datatype json =
  JNull
| JBool bool
| JNumber int
| JString jsstring
| JArray "json list"
| JObject "(jsstring \<times> json) list"

definition LOCAL_STORAGE_KEY :: jsstring where
  "LOCAL_STORAGE_KEY = js ''mini-event-manager:events''"

definition event_json :: "EventItem \<Rightarrow> json" where
  "event_json e =
     JObject [(js ''id'', JString (e_id e)), (js ''name'', JString (e_name e)),
              (js ''date'', JString (e_date e))]"

definition partialize :: "EventsState \<Rightarrow> json" where
  "partialize state = JObject [(js ''events'', JArray (map event_json (events state)))]"

definition storage_value :: "EventsState \<Rightarrow> json" where
  "storage_value state = JObject [(js ''state'', partialize state), (js ''version'', JNumber 1)]"

type_synonym storage = "jsstring \<rightharpoonup> json"

definition setItem :: "EventsState \<Rightarrow> storage \<Rightarrow> storage" where
  "setItem state st = st(LOCAL_STORAGE_KEY \<mapsto> storage_value state)"

text \<open>
  Reading back. \<open>property\<close> reads a key of an object (the last entry wins).
  \<open>merge\<close> is the middleware's default, \<^verbatim>\<open>{...currentState, ...persistedState}\<close>: the
  keys \<^verbatim>\<open>events\<close> and \<^verbatim>\<open>search\<close> of a persisted object replace those of the current
  state, and a persisted state that is not an object (\<^verbatim>\<open>null\<close>, \<^verbatim>\<open>undefined\<close>) adds
  nothing. The result is \<open>None\<close> where a stored key does not have the type the state
  declares for it, which the middleware does not check.
  \<open>rehydrate\<close> keeps the current state when nothing is stored or the stored version is a
  number other than 1 (no \<^verbatim>\<open>migrate\<close> is given).
\<close>

definition property :: "(jsstring \<times> json) list \<Rightarrow> jsstring \<Rightarrow> json option" where
  "property kvs k = map_of (rev kvs) k"

definition event_of_json :: "json \<Rightarrow> EventItem option" where
  "event_of_json j =
     (case j of
        JObject kvs \<Rightarrow>
          (case (property kvs (js ''id''), property kvs (js ''name''), property kvs (js ''date'')) of
             (Some (JString i), Some (JString n), Some (JString d)) \<Rightarrow>
               Some \<lparr>e_id = i, e_name = n, e_date = d\<rparr>
           | _ \<Rightarrow> None)
      | _ \<Rightarrow> None)"

fun events_of_list :: "json list \<Rightarrow> EventItem list option" where
  "events_of_list [] = Some []"
| "events_of_list (j # rest) =
     (case event_of_json j of
        None \<Rightarrow> None
      | Some e \<Rightarrow> (case events_of_list rest of None \<Rightarrow> None | Some es \<Rightarrow> Some (e # es)))"

definition merge :: "json \<Rightarrow> EventsState \<Rightarrow> EventsState option" where
  "merge persistedState currentState =
     (case persistedState of
        JObject kvs \<Rightarrow>
          (case (case property kvs (js ''events'') of
                   None \<Rightarrow> Some (events currentState)
                 | Some (JArray items) \<Rightarrow> events_of_list items
                 | Some _ \<Rightarrow> None,
                 case property kvs (js ''search'') of
                   None \<Rightarrow> Some (search currentState)
                 | Some (JString q) \<Rightarrow> Some q
                 | Some _ \<Rightarrow> None) of
             (Some es, Some q) \<Rightarrow> Some (currentState\<lparr>events := es, search := q\<rparr>)
           | _ \<Rightarrow> None)
      | _ \<Rightarrow> Some currentState)"

definition rehydrate :: "storage \<Rightarrow> EventsState \<Rightarrow> EventsState option" where
  "rehydrate st currentState =
     (case st LOCAL_STORAGE_KEY of
        None \<Rightarrow> Some currentState
      | Some (JObject kvs) \<Rightarrow>
          (case property kvs (js ''version'') of
             Some (JNumber n) \<Rightarrow>
               (if n \<noteq> 1 then Some currentState
                else (case property kvs (js ''state'') of
                        None \<Rightarrow> Some currentState
                      | Some p \<Rightarrow> merge p currentState))
           | _ \<Rightarrow>
               (case property kvs (js ''state'') of
                  None \<Rightarrow> Some currentState
                | Some p \<Rightarrow> merge p currentState))
      | Some _ \<Rightarrow> Some currentState)"

section \<open>What ECMAScript fixes of the platform\<close>

text \<open>
  A consistent comparator, as ECMAScript defines it for \<^verbatim>\<open>sort\<close>; \<^verbatim>\<open>localeCompare\<close>
  is required to be one on all strings.
\<close>

definition consistent_comparator :: "('a \<Rightarrow> 'a \<Rightarrow> int) \<Rightarrow> bool" where
  "consistent_comparator c =
     ((\<forall>a. c a a = 0)
      \<and> (\<forall>a b. c a b = 0 \<longrightarrow> c b a = 0)
      \<and> (\<forall>a b d. c a b = 0 \<and> c b d = 0 \<longrightarrow> c a d = 0)
      \<and> (\<forall>a b d. c a b < 0 \<and> c b d < 0 \<longrightarrow> c a d < 0)
      \<and> (\<forall>a b d. c a b > 0 \<and> c b d > 0 \<longrightarrow> c a d > 0))"

text \<open>
  The year, month and day written in a string of the pattern, and the dates of the
  calendar.
\<close>

definition digits_value :: "jsstring \<Rightarrow> nat" where
  "digits_value s = foldl (\<lambda>n c. 10 * n + (unat c - 48)) 0 s"

definition date_fields :: "jsstring \<Rightarrow> nat \<times> nat \<times> nat" where
  "date_fields v =
     (digits_value (take 4 v), digits_value (take 2 (drop 5 v)), digits_value (take 2 (drop 8 v)))"

definition leap_year :: "nat \<Rightarrow> bool" where
  "leap_year y = (y mod 4 = 0 \<and> (y mod 100 \<noteq> 0 \<or> y mod 400 = 0))"

definition days_in_month :: "nat \<Rightarrow> nat \<Rightarrow> nat" where
  "days_in_month y m =
     (if m = 2 then (if leap_year y then 29 else 28)
      else if m = 4 \<or> m = 6 \<or> m = 9 \<or> m = 11 then 30 else 31)"

definition calendar_date :: "nat \<Rightarrow> nat \<Rightarrow> nat \<Rightarrow> bool" where
  "calendar_date y m d = (1 \<le> m \<and> m \<le> 12 \<and> 1 \<le> d \<and> d \<le> days_in_month y m)"

text \<open>
  What every engine does with a date-only string \<^verbatim>\<open>YYYY-MM-DD\<close>: a date of the calendar
  has a time value, and a month outside 01..12 or a day outside 01..31 gives NaN. A day
  from 29 to 31 that the month does not have is left open: engines differ on it.
\<close>

definition ecma_date_only :: "(jsstring \<Rightarrow> int option) \<Rightarrow> bool" where
  "ecma_date_only parse =
     (\<forall>v. iso_pattern_test v \<longrightarrow>
        (case date_fields v of (y, m, d) \<Rightarrow>
           (calendar_date y m d \<longrightarrow> parse v \<noteq> None)
           \<and> (parse v \<noteq> None \<longrightarrow> 1 \<le> m \<and> m \<le> 12 \<and> 1 \<le> d \<and> d \<le> 31)))"

section \<open>A platform to evaluate on\<close>

text \<open>
  A concrete platform for the examples. It orders strings by code units, which is the
  order \<^verbatim>\<open>localeCompare\<close> gives to dates of the pattern; it lowercases A..Z, which is
  \<^verbatim>\<open>toLowerCase\<close> on ASCII text; it parses a date-only string as V8 does (Chrome,
  Node.js): month 01..12 and day 01..31 give the time value of \<open>MakeDay\<close>, where a day
  past the end of the month runs into the next month, and other strings are taken as
  not recognised. Its \<open>toLocaleDateString\<close> stands for the locale's: it prints the day
  number of the time value.
\<close>

fun codeunit_compare :: "jsstring \<Rightarrow> jsstring \<Rightarrow> int" where
  "codeunit_compare [] [] = 0"
| "codeunit_compare [] (y # ys) = - 1"
| "codeunit_compare (x # xs) [] = 1"
| "codeunit_compare (x # xs) (y # ys) =
     (if x < y then - 1 else if y < x then 1 else codeunit_compare xs ys)"

definition ascii_toLowerCase :: "jsstring \<Rightarrow> jsstring" where
  "ascii_toLowerCase s = map (\<lambda>c. if 0x41 \<le> c \<and> c \<le> 0x5A then c + 0x20 else c) s"

definition DayFromYear :: "int \<Rightarrow> int" where
  "DayFromYear y =
     365 * (y - 1970) + (y - 1969) div 4 - (y - 1901) div 100 + (y - 1601) div 400"

definition MakeDay :: "nat \<Rightarrow> nat \<Rightarrow> nat \<Rightarrow> int" where
  "MakeDay y m d =
     DayFromYear (int y) + int (sum_list (map (days_in_month y) [1..<m])) + int d - 1"

definition v8_Date_parse :: "jsstring \<Rightarrow> int option" where
  "v8_Date_parse v =
     (if iso_pattern_test v then
        (case date_fields v of (y, m, d) \<Rightarrow>
           if 1 \<le> m \<and> m \<le> 12 \<and> 1 \<le> d \<and> d \<le> 31 then Some (MakeDay y m d * 86400000)
           else None)
      else None)"

definition test_platform :: platform where
  "test_platform =
     \<lparr>localeCompare = codeunit_compare,
      toLowerCase = ascii_toLowerCase,
      Date_parse = v8_Date_parse,
      toLocaleDateString = (\<lambda>t. Inr (decimal (nat (t div 86400000))))\<rparr>"

section \<open>Properties\<close>

text \<open>
  C1: \<open>addEvent\<close> appends exactly one event at the end of the collection: the size grows
  by one, the events stored before keep their values and positions, and the new last
  entry has the trimmed name and the date string as given. It holds for every name and
  date, so for the valid pairs in particular.
\<close>

theorem addEvent_appends_one:
  "events (addEvent src name date state) =
     events state @ [\<lparr>e_id = generateId src, e_name = trim name, e_date = date\<rparr>]
   \<and> length (events (addEvent src name date state)) = length (events state) + 1
   \<and> take (length (events state)) (events (addEvent src name date state)) = events state
   \<and> e_name (last (events (addEvent src name date state))) = trim name
   \<and> e_date (last (events (addEvent src name date state))) = date
   \<and> search (addEvent src name date state) = search state"
  by (simp add: addEvent_def)

subsection \<open>Deleting\<close>

lemma filter_id_le_one:
  "distinct (map e_id es) \<Longrightarrow> length (filter (\<lambda>e. e_id e = i) es) \<le> 1"
proof (induction es)
  case Nil
  then show ?case by simp
next
  case (Cons e es)
  show ?case
  proof (cases "e_id e = i")
    case True
    with Cons.prems have "i \<notin> e_id ` set es" by auto
    then have "filter (\<lambda>e. e_id e = i) es = []"
      by (auto simp: filter_empty_conv)
    with True show ?thesis by simp
  next
    case False
    with Cons show ?thesis by simp
  qed
qed

lemma length_filter_split:
  "length es = length (filter (\<lambda>e. e_id e \<noteq> i) es) + length (filter (\<lambda>e. e_id e = i) es)"
  by (induction es) auto

lemma filter_absent_id:
  "i \<notin> set (map e_id es) \<Longrightarrow> filter (\<lambda>e. e_id e \<noteq> i) es = es"
  by (induction es) auto

text \<open>
  C4, as the code has it: \<open>deleteEvent i\<close> keeps, in order, exactly the events whose id
  is not \<open>i\<close>, so it removes every entry with that id. When the ids of the collection are
  distinct that is at most one entry. An id that is not in the collection leaves the
  state as it is, and deleting the same id a second time changes nothing.
\<close>

theorem deleteEvent_removes_matching:
  "events (deleteEvent i state) = filter (\<lambda>e. e_id e \<noteq> i) (events state)
   \<and> search (deleteEvent i state) = search state
   \<and> (distinct (map e_id (events state)) \<longrightarrow>
        length (events state) \<le> length (events (deleteEvent i state)) + 1)
   \<and> (i \<notin> set (map e_id (events state)) \<longrightarrow> deleteEvent i state = state)
   \<and> deleteEvent i (deleteEvent i state) = deleteEvent i state"
proof -
  have one: "distinct (map e_id (events state)) \<Longrightarrow>
      length (events state) \<le> length (events (deleteEvent i state)) + 1"
    using filter_id_le_one [of "events state" i] length_filter_split [of "events state" i]
    by (simp add: deleteEvent_def)
  have absent: "i \<notin> set (map e_id (events state)) \<Longrightarrow> deleteEvent i state = state"
    using filter_absent_id [of i "events state"] by (simp add: deleteEvent_def)
  show ?thesis using one absent by (simp add: deleteEvent_def)
qed

theorem deleteEvent_removes_matching_witness:
  "distinct (map e_id [\<lparr>e_id = js ''a'', e_name = js ''A'', e_date = js ''2024-01-01''\<rparr>,
                       \<lparr>e_id = js ''b'', e_name = js ''B'', e_date = js ''2025-01-01''\<rparr>])
   \<and> events (deleteEvent (js ''a'')
        \<lparr>events = [\<lparr>e_id = js ''a'', e_name = js ''A'', e_date = js ''2024-01-01''\<rparr>,
                   \<lparr>e_id = js ''b'', e_name = js ''B'', e_date = js ''2025-01-01''\<rparr>],
         search = []\<rparr>)
       = [\<lparr>e_id = js ''b'', e_name = js ''B'', e_date = js ''2025-01-01''\<rparr>]
   \<and> js ''c'' \<notin> set (map e_id [\<lparr>e_id = js ''a'', e_name = js ''A'', e_date = js ''2024-01-01''\<rparr>,
                       \<lparr>e_id = js ''b'', e_name = js ''B'', e_date = js ''2025-01-01''\<rparr>])
   \<and> deleteEvent (js ''c'')
        \<lparr>events = [\<lparr>e_id = js ''a'', e_name = js ''A'', e_date = js ''2024-01-01''\<rparr>,
                   \<lparr>e_id = js ''b'', e_name = js ''B'', e_date = js ''2025-01-01''\<rparr>],
         search = []\<rparr>
       = \<lparr>events = [\<lparr>e_id = js ''a'', e_name = js ''A'', e_date = js ''2024-01-01''\<rparr>,
                   \<lparr>e_id = js ''b'', e_name = js ''B'', e_date = js ''2025-01-01''\<rparr>],
         search = []\<rparr>"
  using deleteEvent_removes_matching [of "js ''a''"
      "\<lparr>events = [\<lparr>e_id = js ''a'', e_name = js ''A'', e_date = js ''2024-01-01''\<rparr>,
                  \<lparr>e_id = js ''b'', e_name = js ''B'', e_date = js ''2025-01-01''\<rparr>],
        search = []\<rparr>"]
    deleteEvent_removes_matching [of "js ''c''"
      "\<lparr>events = [\<lparr>e_id = js ''a'', e_name = js ''A'', e_date = js ''2024-01-01''\<rparr>,
                  \<lparr>e_id = js ''b'', e_name = js ''B'', e_date = js ''2025-01-01''\<rparr>],
        search = []\<rparr>"]
  by (simp add: js_def)

text \<open>
  The claim as written (at most one entry removed, for every store state) fails on a
  collection that holds the same id twice: one \<open>deleteEvent\<close> removes both entries.
\<close>

theorem deleteEvent_removes_two_counterexample:
  "length (events (deleteEvent (js ''x'')
      \<lparr>events = [\<lparr>e_id = js ''x'', e_name = js ''A'', e_date = js ''2024-01-01''\<rparr>,
                 \<lparr>e_id = js ''x'', e_name = js ''B'', e_date = js ''2025-01-01''\<rparr>],
       search = []\<rparr>)) + 1
   < length (events
      \<lparr>events = [\<lparr>e_id = js ''x'', e_name = js ''A'', e_date = js ''2024-01-01''\<rparr>,
                 \<lparr>e_id = js ''x'', e_name = js ''B'', e_date = js ''2025-01-01''\<rparr>],
       search = []\<rparr>)"
  by (simp add: deleteEvent_def)

subsection \<open>Unique ids\<close>

lemma unat_digit: "k < 10 \<Longrightarrow> unat (0x30 + of_nat k :: code_unit) = 48 + k"
  by (simp add: unat_word_ariths unat_of_nat)

lemma digits_value_snoc:
  "digits_value (s @ [c]) = 10 * digits_value s + (unat c - 48)"
  by (simp add: digits_value_def)

lemma decimal_step:
  "\<not> n < 10 \<Longrightarrow> decimal n = decimal (n div 10) @ [0x30 + of_nat (n mod 10)]"
  by (subst decimal.simps) simp

lemma decimal_digit: "n < 10 \<Longrightarrow> decimal n = [0x30 + of_nat n]"
  by (subst decimal.simps) simp

lemma digits_value_decimal: "digits_value (decimal n) = n"
proof (induction n rule: decimal.induct)
  case (1 n)
  show ?case
  proof (cases "n < 10")
    case True
    have "digits_value (decimal n) = unat (0x30 + of_nat n :: code_unit) - 48"
      by (simp only: decimal_digit [OF True]) (simp add: digits_value_def)
    also have "\<dots> = n" by (simp only: unat_digit [OF True] add_diff_cancel_left')
    finally show ?thesis .
  next
    case False
    from 1 False have ih: "digits_value (decimal (n div 10)) = n div 10" by blast
    have m: "n mod 10 < 10" by simp
    have "digits_value (decimal n)
        = 10 * (n div 10) + (unat (0x30 + of_nat (n mod 10) :: code_unit) - 48)"
      by (simp only: decimal_step [OF False] digits_value_snoc ih)
    also have "\<dots> = 10 * (n div 10) + n mod 10"
      by (simp only: unat_digit [OF m] add_diff_cancel_left')
    also have "\<dots> = n" by simp
    finally show ?thesis .
  qed
qed

lemma decimal_inj: "decimal n = decimal m \<Longrightarrow> n = m"
  by (metis digits_value_decimal)

lemma digit_not_underscore: "k < 10 \<Longrightarrow> (0x30 + of_nat k :: code_unit) \<noteq> 0x5F"
proof
  assume k: "k < 10" and e: "(0x30 + of_nat k :: code_unit) = 0x5F"
  from e have "unat (0x30 + of_nat k :: code_unit) = unat (0x5F :: code_unit)" by simp
  with unat_digit [OF k] k show False by simp
qed

lemma decimal_no_underscore: "0x5F \<notin> set (decimal n)"
proof (induction n rule: decimal.induct)
  case (1 n)
  show ?case
  proof (cases "n < 10")
    case True
    then show ?thesis using digit_not_underscore [of n] by (simp add: decimal_digit)
  next
    case False
    from 1 False have ih: "0x5F \<notin> set (decimal (n div 10))" by blast
    have "n mod 10 < 10" by simp
    then have "(0x30 + of_nat (n mod 10) :: code_unit) \<noteq> 0x5F" by (rule digit_not_underscore)
    with ih show ?thesis by (simp only: decimal_step [OF False] set_append) auto
  qed
qed

lemma takeWhile_until: "a \<notin> set xs \<Longrightarrow> takeWhile (\<lambda>c. c \<noteq> a) (xs @ a # ys) = xs"
  by (induction xs) auto

lemma split_at_first:
  assumes "a \<notin> set xs" and "a \<notin> set xs'" and "xs @ a # ys = xs' @ a # ys'"
  shows "xs = xs' \<and> ys = ys'"
proof -
  have "takeWhile (\<lambda>c. c \<noteq> a) (xs @ a # ys) = xs"
    using assms(1) by (rule takeWhile_until)
  moreover have "takeWhile (\<lambda>c. c \<noteq> a) (xs' @ a # ys') = xs'"
    using assms(2) by (rule takeWhile_until)
  ultimately have "xs = xs'" using assms(3) by simp
  with assms(3) show ?thesis by simp
qed

lemma generateId_fallback:
  "randomUUID src = None \<Longrightarrow>
   generateId src = decimal (Date_now src) @ 0x5F # slice 2 10 (Math_random_36 src)"
  by (simp add: generateId_def js_def)

lemma generateId_uuid: "randomUUID src = Some u \<Longrightarrow> generateId src = u"
  by (simp add: generateId_def)

lemma generateId_reading:
  assumes a: "uuid_without_underscore src" and b: "uuid_without_underscore src'"
    and e: "generateId src = generateId src'"
  shows "id_reading src = id_reading src'"
proof (cases "randomUUID src")
  case None
  note n = this
  show ?thesis
  proof (cases "randomUUID src'")
    case None
    from e have "decimal (Date_now src) @ 0x5F # slice 2 10 (Math_random_36 src)
        = decimal (Date_now src') @ 0x5F # slice 2 10 (Math_random_36 src')"
      by (simp add: generateId_fallback n None)
    from split_at_first [OF decimal_no_underscore decimal_no_underscore this]
    have "decimal (Date_now src) = decimal (Date_now src')"
      and "slice 2 10 (Math_random_36 src) = slice 2 10 (Math_random_36 src')" by simp_all
    then show ?thesis using decimal_inj n None by (auto simp: id_reading_def)
  next
    case (Some u)
    with b have "0x5F \<notin> set u" by (simp add: uuid_without_underscore_def)
    moreover from e have "u = decimal (Date_now src) @ 0x5F # slice 2 10 (Math_random_36 src)"
      by (simp add: generateId_fallback n generateId_uuid Some)
    ultimately show ?thesis by simp
  qed
next
  case (Some u)
  note s = this
  with a have u: "0x5F \<notin> set u" by (simp add: uuid_without_underscore_def)
  show ?thesis
  proof (cases "randomUUID src'")
    case None
    from e have "u = decimal (Date_now src') @ 0x5F # slice 2 10 (Math_random_36 src')"
      by (simp add: generateId_fallback None generateId_uuid s)
    with u show ?thesis by simp
  next
    case (Some u')
    with e s show ?thesis by (simp add: generateId_uuid id_reading_def)
  qed
qed

lemma generated_ids_distinct:
  assumes d: "distinct (map id_reading srcs)" and ok: "list_all uuid_without_underscore srcs"
  shows "distinct (map generateId srcs)"
proof -
  from d have ds: "distinct srcs" and inj: "inj_on id_reading (set srcs)"
    by (simp_all add: distinct_map)
  have "inj_on generateId (set srcs)"
  proof (rule inj_onI)
    fix a b assume a: "a \<in> set srcs" and b: "b \<in> set srcs" and e: "generateId a = generateId b"
    from ok a b have "uuid_without_underscore a" "uuid_without_underscore b"
      by (simp_all add: list_all_iff)
    from generateId_reading [OF this e] have "id_reading a = id_reading b" .
    with inj a b show "a = b" by (auto dest: inj_onD)
  qed
  with ds show ?thesis by (simp add: distinct_map)
qed

lemma run_ids_distinct:
  "distinct (map e_id (events state)) \<Longrightarrow>
   distinct (map generateId (add_sources acts)) \<Longrightarrow>
   set (map e_id (events state)) \<inter> set (map generateId (add_sources acts)) = {} \<Longrightarrow>
   distinct (map e_id (events (foldl dispatch state acts)))"
proof (induction acts arbitrary: state)
  case Nil
  then show ?case by simp
next
  case (Cons a acts)
  show ?case
  proof (cases a)
    case (AddEvent src name date)
    let ?st = "addEvent src name date state"
    have ids: "map e_id (events ?st) = map e_id (events state) @ [generateId src]"
      by (simp add: addEvent_def)
    from Cons.prems AddEvent have 1: "distinct (map e_id (events ?st))"
      by (auto simp: ids)
    from Cons.prems AddEvent have 2: "distinct (map generateId (add_sources acts))" by simp
    from Cons.prems AddEvent
    have 3: "set (map e_id (events ?st)) \<inter> set (map generateId (add_sources acts)) = {}"
      by (auto simp: ids)
    from Cons.IH [OF 1 2 3] AddEvent show ?thesis by simp
  next
    case (DeleteEvent i)
    let ?st = "deleteEvent i state"
    from Cons.prems have 1: "distinct (map e_id (events ?st))"
      by (simp add: deleteEvent_def distinct_map_filter)
    from Cons.prems DeleteEvent have 2: "distinct (map generateId (add_sources acts))" by simp
    from Cons.prems DeleteEvent
    have 3: "set (map e_id (events ?st)) \<inter> set (map generateId (add_sources acts)) = {}"
      by (auto simp: deleteEvent_def)
    from Cons.IH [OF 1 2 3] DeleteEvent show ?thesis by simp
  next
    case (SetSearch q)
    let ?st = "setSearch q state"
    from Cons.prems have 1: "distinct (map e_id (events ?st))" by (simp add: setSearch_def)
    from Cons.prems SetSearch have 2: "distinct (map generateId (add_sources acts))" by simp
    from Cons.prems SetSearch
    have 3: "set (map e_id (events ?st)) \<inter> set (map generateId (add_sources acts)) = {}"
      by (simp add: setSearch_def)
    from Cons.IH [OF 1 2 3] SetSearch show ?thesis by simp
  qed
qed

text \<open>
  C6, as the code has it: in every state reached from the empty collection by
  \<open>addEvent\<close>, \<open>deleteEvent\<close> and \<open>setSearch\<close>, the ids are pairwise distinct,
  provided what \<^verbatim>\<open>generateId\<close> reads from the platform does not repeat between two
  calls: no UUID is returned twice, and without \<^verbatim>\<open>crypto.randomUUID\<close> no two calls
  share the millisecond and the eight random digits. The ids are those \<open>generateId\<close>
  builds: the decimal millisecond, an underscore and the digits, or the UUID.
\<close>

theorem reachable_ids_distinct:
  assumes "distinct (map id_reading (add_sources acts))"
    and "list_all uuid_without_underscore (add_sources acts)"
  shows "distinct (map e_id (events (foldl dispatch initial_state acts)))"
proof -
  from assms have "distinct (map generateId (add_sources acts))"
    by (rule generated_ids_distinct)
  then show ?thesis
    using run_ids_distinct [of initial_state acts] by (simp add: initial_state_def)
qed

theorem reachable_ids_distinct_witness:
  "distinct (map id_reading (add_sources
     [AddEvent \<lparr>randomUUID = Some (js ''3b241101-e2bb-4255-8caf-4136c566a962''), Date_now = 1700000000000,
                Math_random_36 = js ''0.4fzyo82mvyr''\<rparr> (js ''B'') (js ''2025-01-01''),
      AddEvent \<lparr>randomUUID = None, Date_now = 1700000000000, Math_random_36 = js ''0.4fzyo82mvyr''\<rparr>
        (js ''A'') (js ''2024-01-01''),
      AddEvent \<lparr>randomUUID = None, Date_now = 1700000000001, Math_random_36 = js ''0.4fzyo82mvyr''\<rparr>
        (js ''C'') (js ''2024-06-01''),
      DeleteEvent (js ''1700000000000_4fzyo82m'')]))
   \<and> list_all uuid_without_underscore (add_sources
     [AddEvent \<lparr>randomUUID = Some (js ''3b241101-e2bb-4255-8caf-4136c566a962''), Date_now = 1700000000000,
                Math_random_36 = js ''0.4fzyo82mvyr''\<rparr> (js ''B'') (js ''2025-01-01''),
      AddEvent \<lparr>randomUUID = None, Date_now = 1700000000000, Math_random_36 = js ''0.4fzyo82mvyr''\<rparr>
        (js ''A'') (js ''2024-01-01''),
      AddEvent \<lparr>randomUUID = None, Date_now = 1700000000001, Math_random_36 = js ''0.4fzyo82mvyr''\<rparr>
        (js ''C'') (js ''2024-06-01''),
      DeleteEvent (js ''1700000000000_4fzyo82m'')])
   \<and> distinct (map e_id (events (foldl dispatch initial_state
     [AddEvent \<lparr>randomUUID = Some (js ''3b241101-e2bb-4255-8caf-4136c566a962''), Date_now = 1700000000000,
                Math_random_36 = js ''0.4fzyo82mvyr''\<rparr> (js ''B'') (js ''2025-01-01''),
      AddEvent \<lparr>randomUUID = None, Date_now = 1700000000000, Math_random_36 = js ''0.4fzyo82mvyr''\<rparr>
        (js ''A'') (js ''2024-01-01''),
      AddEvent \<lparr>randomUUID = None, Date_now = 1700000000001, Math_random_36 = js ''0.4fzyo82mvyr''\<rparr>
        (js ''C'') (js ''2024-06-01''),
      DeleteEvent (js ''1700000000000_4fzyo82m'')])))"
proof -
  have d: "distinct (map id_reading (add_sources
     [AddEvent \<lparr>randomUUID = Some (js ''3b241101-e2bb-4255-8caf-4136c566a962''), Date_now = 1700000000000,
                Math_random_36 = js ''0.4fzyo82mvyr''\<rparr> (js ''B'') (js ''2025-01-01''),
      AddEvent \<lparr>randomUUID = None, Date_now = 1700000000000, Math_random_36 = js ''0.4fzyo82mvyr''\<rparr>
        (js ''A'') (js ''2024-01-01''),
      AddEvent \<lparr>randomUUID = None, Date_now = 1700000000001, Math_random_36 = js ''0.4fzyo82mvyr''\<rparr>
        (js ''C'') (js ''2024-06-01''),
      DeleteEvent (js ''1700000000000_4fzyo82m'')]))"
    by (simp add: id_reading_def)
  have u: "list_all uuid_without_underscore (add_sources
     [AddEvent \<lparr>randomUUID = Some (js ''3b241101-e2bb-4255-8caf-4136c566a962''), Date_now = 1700000000000,
                Math_random_36 = js ''0.4fzyo82mvyr''\<rparr> (js ''B'') (js ''2025-01-01''),
      AddEvent \<lparr>randomUUID = None, Date_now = 1700000000000, Math_random_36 = js ''0.4fzyo82mvyr''\<rparr>
        (js ''A'') (js ''2024-01-01''),
      AddEvent \<lparr>randomUUID = None, Date_now = 1700000000001, Math_random_36 = js ''0.4fzyo82mvyr''\<rparr>
        (js ''C'') (js ''2024-06-01''),
      DeleteEvent (js ''1700000000000_4fzyo82m'')])"
    by (simp add: uuid_without_underscore_def js_def)
  from d u reachable_ids_distinct [OF d u] show ?thesis by blast
qed

text \<open>
  When the platform repeats, the claim fails: nothing in \<open>addEvent\<close> compares the new
  id with the stored ones. Here \<^verbatim>\<open>crypto\<close> is missing, both calls fall in the same
  millisecond and \<^verbatim>\<open>Math.random\<close> repeats; the two events get the same id.
\<close>

theorem reachable_ids_repeat_counterexample:
  "\<not> distinct (map e_id (events (foldl dispatch initial_state
     [AddEvent \<lparr>randomUUID = None, Date_now = 1700000000000, Math_random_36 = js ''0.4fzyo82mvyr''\<rparr>
        (js ''B'') (js ''2025-01-01''),
      AddEvent \<lparr>randomUUID = None, Date_now = 1700000000000, Math_random_36 = js ''0.4fzyo82mvyr''\<rparr>
        (js ''A'') (js ''2024-01-01'')])))"
  by (simp add: initial_state_def addEvent_def)

subsection \<open>Sorting with a consistent comparator\<close>

lemma cc_refl: "consistent_comparator c \<Longrightarrow> c a a = 0"
  unfolding consistent_comparator_def by blast

lemma cc_sym: "consistent_comparator c \<Longrightarrow> c a b = 0 \<Longrightarrow> c b a = 0"
  unfolding consistent_comparator_def by blast

lemma cc_eq_trans: "consistent_comparator c \<Longrightarrow> c a b = 0 \<Longrightarrow> c b d = 0 \<Longrightarrow> c a d = 0"
  unfolding consistent_comparator_def by blast

lemma cc_lt_trans: "consistent_comparator c \<Longrightarrow> c a b < 0 \<Longrightarrow> c b d < 0 \<Longrightarrow> c a d < 0"
  unfolding consistent_comparator_def by blast

lemma cc_gt_trans: "consistent_comparator c \<Longrightarrow> c a b > 0 \<Longrightarrow> c b d > 0 \<Longrightarrow> c a d > 0"
  unfolding consistent_comparator_def by blast

lemma cc_gt_swap:
  assumes "consistent_comparator c" and "c a b > 0"
  shows "c b a < 0"
proof (rule ccontr)
  assume "\<not> c b a < 0"
  then consider "c b a = 0" | "c b a > 0" by linarith
  then show False
  proof cases
    case 1
    from cc_sym [OF assms(1) 1] assms(2) show False by simp
  next
    case 2
    from cc_gt_trans [OF assms(1) assms(2) 2] cc_refl [OF assms(1), of a] show False by simp
  qed
qed

lemma cc_lt_swap:
  assumes "consistent_comparator c" and "c a b < 0"
  shows "c b a > 0"
proof (rule ccontr)
  assume "\<not> c b a > 0"
  then consider "c b a = 0" | "c b a < 0" by linarith
  then show False
  proof cases
    case 1
    from cc_sym [OF assms(1) 1] assms(2) show False by simp
  next
    case 2
    from cc_lt_trans [OF assms(1) assms(2) 2] cc_refl [OF assms(1), of a] show False by simp
  qed
qed

lemma cc_total: "consistent_comparator c \<Longrightarrow> c a b \<le> 0 \<or> c b a \<le> 0"
  using cc_gt_swap [of c a b] by force

lemma cc_le_trans:
  assumes cc: "consistent_comparator c" and ab: "c a b \<le> 0" and bd: "c b d \<le> 0"
  shows "c a d \<le> 0"
proof (rule ccontr)
  assume "\<not> c a d \<le> 0"
  then have ad: "c a d > 0" by simp
  then have da: "c d a < 0" by (rule cc_gt_swap [OF cc])
  consider "c a b < 0" | "c a b = 0" using ab by linarith
  then show False
  proof cases
    case 1
    from cc_lt_trans [OF cc da 1] have db: "c d b < 0" .
    then have "c b d > 0" by (rule cc_lt_swap [OF cc])
    with bd show False by simp
  next
    case 2
    consider "c b d < 0" | "c b d = 0" using bd by linarith
    then show False
    proof cases
      case 1
      from cc_lt_trans [OF cc 1 da] have "c b a < 0" .
      moreover from cc_sym [OF cc 2] have "c b a = 0" .
      ultimately show False by simp
    next
      case 2
      from cc_eq_trans [OF cc \<open>c a b = 0\<close> 2] ad show False by simp
    qed
  qed
qed

lemma set_insert_sorted: "set (insert_sorted c x ys) = insert x (set ys)"
  by (induction ys) auto

lemma mset_insert_sorted: "mset (insert_sorted c x ys) = add_mset x (mset ys)"
  by (induction ys) auto

lemma mset_Array_sort: "mset (Array_sort c xs) = mset xs"
  by (induction xs) (auto simp: Array_sort_def mset_insert_sorted)

lemma sorted_insert_sorted:
  assumes cc: "consistent_comparator c"
  shows "sorted_wrt (\<lambda>a b. c a b \<le> 0) ys \<Longrightarrow> sorted_wrt (\<lambda>a b. c a b \<le> 0) (insert_sorted c x ys)"
proof (induction ys)
  case Nil
  then show ?case by simp
next
  case (Cons y ys)
  show ?case
  proof (cases "c x y \<le> 0")
    case True
    have "\<forall>z\<in>set ys. c x z \<le> 0"
      using Cons.prems True cc_le_trans [OF cc] by auto
    with True Cons.prems show ?thesis by simp
  next
    case False
    then have "c y x \<le> 0" using cc_total [OF cc, of x y] by simp
    with False Cons show ?thesis by (auto simp: set_insert_sorted)
  qed
qed

lemma sorted_Array_sort:
  "consistent_comparator c \<Longrightarrow> sorted_wrt (\<lambda>a b. c a b \<le> 0) (Array_sort c xs)"
  by (induction xs) (auto simp: Array_sort_def sorted_insert_sorted)

lemma filter_insert_sorted:
  assumes cc: "consistent_comparator c"
  shows "filter (\<lambda>y. c y k = 0) (insert_sorted c x ys) =
         (if c x k = 0 then x # filter (\<lambda>y. c y k = 0) ys else filter (\<lambda>y. c y k = 0) ys)"
proof (induction ys)
  case Nil
  then show ?case by simp
next
  case (Cons y ys)
  show ?case
  proof (cases "c x y \<le> 0")
    case True
    then show ?thesis by simp
  next
    case False
    have "\<not> (c x k = 0 \<and> c y k = 0)"
    proof
      assume h: "c x k = 0 \<and> c y k = 0"
      then have "c k y = 0" using cc_sym [OF cc] by blast
      with h have "c x y = 0" using cc_eq_trans [OF cc] by blast
      with False show False by simp
    qed
    with False Cons.IH show ?thesis by auto
  qed
qed

lemma Array_sort_stable:
  "consistent_comparator c \<Longrightarrow>
   filter (\<lambda>y. c y k = 0) (Array_sort c xs) = filter (\<lambda>y. c y k = 0) xs"
  by (induction xs) (auto simp: Array_sort_def filter_insert_sorted)

subsection \<open>The platform to evaluate on conforms\<close>

lemma codeunit_compare_refl: "codeunit_compare a a = 0"
  by (induction a) auto

lemma codeunit_compare_eq: "codeunit_compare a b = 0 \<Longrightarrow> a = b"
  by (induction a b rule: codeunit_compare.induct) (auto split: if_splits)

lemma codeunit_compare_lt_trans:
  "codeunit_compare a b < 0 \<Longrightarrow> codeunit_compare b d < 0 \<Longrightarrow> codeunit_compare a d < 0"
proof (induction a b arbitrary: d rule: codeunit_compare.induct)
  case 1
  then show ?case by simp
next
  case (2 y ys)
  then show ?case by (cases d) (auto split: if_splits)
next
  case (3 x xs)
  then show ?case by simp
next
  case (4 x xs y ys)
  then show ?case by (cases d) (auto split: if_splits)
qed

lemma codeunit_compare_gt_trans:
  "codeunit_compare a b > 0 \<Longrightarrow> codeunit_compare b d > 0 \<Longrightarrow> codeunit_compare a d > 0"
proof (induction a b arbitrary: d rule: codeunit_compare.induct)
  case 1
  then show ?case by simp
next
  case (2 y ys)
  then show ?case by simp
next
  case (3 x xs)
  then show ?case by (cases d) (auto split: if_splits)
next
  case (4 x xs y ys)
  then show ?case by (cases d) (auto split: if_splits)
qed

lemma consistent_codeunit_compare: "consistent_comparator codeunit_compare"
  unfolding consistent_comparator_def
  using codeunit_compare_refl codeunit_compare_eq codeunit_compare_lt_trans
    codeunit_compare_gt_trans
  by blast

lemma ascii_toLowerCase_empty: "(ascii_toLowerCase s = []) = (s = [])"
  by (simp add: ascii_toLowerCase_def)

lemma ecma_v8_Date_parse: "ecma_date_only v8_Date_parse"
  by (auto simp: ecma_date_only_def v8_Date_parse_def calendar_date_def days_in_month_def
      split: prod.splits if_splits)

subsection \<open>Trimming and containment\<close>

lemma dropWhile_ends:
  "s = [] \<or> \<not> P (hd s) \<Longrightarrow> dropWhile P s = s"
  by (cases s) auto

lemma last_dropWhile_keep:
  "dropWhile P s \<noteq> [] \<Longrightarrow> last (dropWhile P s) = last s"
  by (induction s) (auto split: if_splits)

lemma trim_ends:
  "trim s = [] \<or> (\<not> isWhiteSpace (hd (trim s)) \<and> \<not> isWhiteSpace (last (trim s)))"
proof (cases "trim s = []")
  case True
  then show ?thesis by simp
next
  case False
  define u where "u = dropWhile isWhiteSpace s"
  define w where "w = dropWhile isWhiteSpace (rev u)"
  have t: "trim s = rev w" by (simp add: trim_def trimEnd_def trimStart_def u_def w_def)
  with False have w: "w \<noteq> []" by simp
  have u: "u \<noteq> []"
  proof
    assume "u = []"
    then have "w = []" by (simp add: w_def)
    with w show False by simp
  qed
  have "last (trim s) = hd w" using w t by (simp add: last_rev)
  moreover have "\<not> isWhiteSpace (hd w)" using w unfolding w_def by (rule hd_dropWhile)
  moreover have "hd (trim s) = last w" using w t by (simp add: hd_rev)
  moreover have "last w = last (rev u)" using w unfolding w_def by (rule last_dropWhile_keep)
  moreover have "last (rev u) = hd u" using u by (simp add: last_rev)
  moreover have "\<not> isWhiteSpace (hd u)" using u unfolding u_def by (rule hd_dropWhile)
  ultimately show ?thesis by simp
qed

lemma trim_fixed:
  assumes "t = [] \<or> (\<not> isWhiteSpace (hd t) \<and> \<not> isWhiteSpace (last t))"
  shows "trim t = t"
proof (cases "t = []")
  case True
  then show ?thesis by (simp add: trim_def trimEnd_def trimStart_def)
next
  case False
  with assms have h: "\<not> isWhiteSpace (hd t)" and l: "\<not> isWhiteSpace (last t)" by auto
  from h have "dropWhile isWhiteSpace t = t" by (simp add: dropWhile_ends)
  moreover from l False have "dropWhile isWhiteSpace (rev t) = rev t"
    by (simp add: dropWhile_ends hd_rev)
  ultimately show ?thesis by (simp add: trim_def trimEnd_def trimStart_def)
qed

lemma trim_idem: "trim (trim s) = trim s"
  using trim_ends [of s] by (rule trim_fixed)

lemma trim_whitespace: "list_all isWhiteSpace s \<Longrightarrow> trim s = []"
  by (auto simp: trim_def trimEnd_def trimStart_def list_all_iff dest: set_dropWhileD)

lemma trim_empty_iff: "(trim s = []) = list_all isWhiteSpace s"
proof
  assume "trim s = []"
  then have "dropWhile isWhiteSpace (rev (dropWhile isWhiteSpace s)) = []"
    by (simp add: trim_def trimEnd_def trimStart_def)
  then have "\<forall>x\<in>set (dropWhile isWhiteSpace s). isWhiteSpace x"
    by (simp add: dropWhile_eq_Nil_conv)
  moreover have "dropWhile isWhiteSpace s = [] \<or> \<not> isWhiteSpace (hd (dropWhile isWhiteSpace s))"
    using hd_dropWhile [of isWhiteSpace s] by blast
  ultimately have "dropWhile isWhiteSpace s = []"
    by (cases "dropWhile isWhiteSpace s") auto
  then show "list_all isWhiteSpace s" by (simp add: dropWhile_eq_Nil_conv list_all_iff)
next
  assume "list_all isWhiteSpace s"
  then show "trim s = []" by (rule trim_whitespace)
qed

lemma trimStart_padded:
  "list_all isWhiteSpace l \<Longrightarrow> trimStart (l @ s) = trimStart s"
  by (simp add: trimStart_def list_all_iff dropWhile_append2)

lemma trimEnd_padded:
  assumes "list_all isWhiteSpace r"
  shows "trimEnd (s @ r) = trimEnd s"
proof -
  have "dropWhile isWhiteSpace (rev r @ rev s) = dropWhile isWhiteSpace (rev s)"
    using assms by (intro dropWhile_append2) (simp add: list_all_iff)
  then show ?thesis by (simp add: trimEnd_def)
qed

lemma trimStart_append:
  "\<not> list_all isWhiteSpace s \<Longrightarrow> trimStart (s @ r) = trimStart s @ r"
  by (auto simp: trimStart_def list_all_iff dropWhile_append1)

lemma trim_padded:
  assumes l: "list_all isWhiteSpace l" and r: "list_all isWhiteSpace r"
  shows "trim (l @ s @ r) = trim s"
proof (cases "list_all isWhiteSpace s")
  case True
  with l r have "list_all isWhiteSpace (l @ s @ r)" by simp
  then have "trim (l @ s @ r) = []" by (rule trim_whitespace)
  moreover from True have "trim s = []" by (rule trim_whitespace)
  ultimately show ?thesis by simp
next
  case False
  have "trim (l @ s @ r) = trimEnd (trimStart (s @ r))"
    using l by (simp add: trim_def trimStart_padded)
  also have "\<dots> = trimEnd (trimStart s @ r)" using False by (simp add: trimStart_append)
  also have "\<dots> = trimEnd (trimStart s)" using r by (rule trimEnd_padded)
  finally show ?thesis by (simp add: trim_def)
qed

lemma str_includes_iff: "str_includes s q = (\<exists>ps ss. s = ps @ q @ ss)"
proof (induction s)
  case Nil
  then show ?case by auto
next
  case (Cons c s)
  show ?case
  proof
    assume "str_includes (c # s) q"
    then consider "prefix q (c # s)" | "str_includes s q" by auto
    then show "\<exists>ps ss. c # s = ps @ q @ ss"
    proof cases
      case 1
      then obtain ss where "c # s = q @ ss" by (auto simp: prefix_def)
      then have "c # s = [] @ q @ ss" by simp
      then show ?thesis by blast
    next
      case 2
      with Cons.IH obtain ps ss where "s = ps @ q @ ss" by blast
      then have "c # s = (c # ps) @ q @ ss" by simp
      then show ?thesis by blast
    qed
  next
    assume "\<exists>ps ss. c # s = ps @ q @ ss"
    then obtain ps ss where e: "c # s = ps @ q @ ss" by blast
    show "str_includes (c # s) q"
    proof (cases ps)
      case Nil
      with e have "prefix q (c # s)" by (simp add: prefix_def)
      then show ?thesis by simp
    next
      case (Cons p ps')
      with e have "s = ps' @ q @ ss" by simp
      with Cons.IH have "str_includes s q" by blast
      then show ?thesis by simp
    qed
  qed
qed

subsection \<open>The sorted view\<close>

lemma filteredEvents_unfold:
  "filteredEvents pf evs srch =
     (if toLowerCase pf (trim srch) = []
      then Array_sort (\<lambda>a b. localeCompare pf (e_date a) (e_date b)) evs
      else filter (\<lambda>e. str_includes (toLowerCase pf (e_name e)) (toLowerCase pf (trim srch)))
             (Array_sort (\<lambda>a b. localeCompare pf (e_date a) (e_date b)) evs))"
  by (simp add: filteredEvents_def Let_def)

lemma consistent_on_field:
  assumes "consistent_comparator c"
  shows "consistent_comparator (\<lambda>a b. c (f a) (f b))"
  unfolding consistent_comparator_def
proof (intro conjI allI impI)
  fix a show "c (f a) (f a) = 0" using assms by (rule cc_refl)
next
  fix a b assume "c (f a) (f b) = 0"
  then show "c (f b) (f a) = 0" by (rule cc_sym [OF assms])
next
  fix a b d assume "c (f a) (f b) = 0 \<and> c (f b) (f d) = 0"
  then show "c (f a) (f d) = 0" using cc_eq_trans [OF assms] by blast
next
  fix a b d assume "c (f a) (f b) < 0 \<and> c (f b) (f d) < 0"
  then show "c (f a) (f d) < 0" using cc_lt_trans [OF assms] by blast
next
  fix a b d assume "0 < c (f a) (f b) \<and> 0 < c (f b) (f d)"
  then show "0 < c (f a) (f d)" using cc_gt_trans [OF assms] by blast
qed

lemma sorted_wrt_filter_keep: "sorted_wrt R xs \<Longrightarrow> sorted_wrt R (filter P xs)"
  by (induction xs) auto

lemma Array_sort_same_date:
  assumes cc: "consistent_comparator (localeCompare pf)"
  shows "filter (\<lambda>e. e_date e = d)
           (Array_sort (\<lambda>a b. localeCompare pf (e_date a) (e_date b)) (evs :: EventItem list))
         = filter (\<lambda>e. e_date e = d) evs"
proof -
  let ?c = "\<lambda>a b. localeCompare pf (e_date a) (e_date b)"
  let ?k = "\<lparr>e_id = [], e_name = [], e_date = d\<rparr>"
  have c: "consistent_comparator ?c" using cc by (rule consistent_on_field)
  have imp: "\<And>e. e_date e = d \<Longrightarrow> ?c e ?k = 0" using cc_refl [OF cc] by simp
  have narrow: "\<And>xs. filter (\<lambda>e. e_date e = d) (filter (\<lambda>e. ?c e ?k = 0) xs)
      = filter (\<lambda>e. e_date e = d) xs"
    using imp by (auto intro: filter_cong)
  have "filter (\<lambda>e. e_date e = d) (Array_sort ?c evs)
      = filter (\<lambda>e. e_date e = d) (filter (\<lambda>e. ?c e ?k = 0) (Array_sort ?c evs))"
    by (simp only: narrow)
  also have "\<dots> = filter (\<lambda>e. e_date e = d) (filter (\<lambda>e. ?c e ?k = 0) evs)"
    using Array_sort_stable [OF c, of ?k evs] by (rule arg_cong)
  also have "\<dots> = filter (\<lambda>e. e_date e = d) evs" by (simp only: narrow)
  finally show ?thesis .
qed

lemma trim_literals:
  "trim (js ''A'') = js ''A''" "trim (js ''B'') = js ''B''" "trim [] = []"
  by (simp_all add: trim_def trimEnd_def trimStart_def js_def isWhiteSpace_def)

text \<open>
  C2: with \<^verbatim>\<open>localeCompare\<close> the consistent comparator ECMAScript requires, the view
  is in ascending order of date for every stored list and every search text, whatever
  the order the events were added in; with no search text it holds every stored event
  once; and the sort is stable: the events of the view that have a given date stand in
  the order they have in the store. Adding B (2025-01-01) and then A (2024-01-01) shows
  A before B.
\<close>

theorem filteredEvents_sorted_stable:
  assumes cc: "consistent_comparator (localeCompare pf)"
  shows "sorted_wrt (\<lambda>a b. localeCompare pf (e_date a) (e_date b) \<le> 0) (filteredEvents pf evs srch)
   \<and> (toLowerCase pf (trim srch) = [] \<longrightarrow> mset (filteredEvents pf evs srch) = mset evs)
   \<and> filter (\<lambda>e. e_date e = d) (filteredEvents pf evs srch) =
       (if toLowerCase pf (trim srch) = [] then filter (\<lambda>e. e_date e = d) evs
        else filter (\<lambda>e. str_includes (toLowerCase pf (e_name e)) (toLowerCase pf (trim srch)))
               (filter (\<lambda>e. e_date e = d) evs))
   \<and> (localeCompare pf (js ''2024-01-01'') (js ''2025-01-01'') < 0 \<and> toLowerCase pf [] = [] \<longrightarrow>
        map e_name (filteredEvents pf
          (events (addEvent s2 (js ''A'') (js ''2024-01-01'')
                    (addEvent s1 (js ''B'') (js ''2025-01-01'') initial_state))) [])
        = [js ''A'', js ''B''])"
proof -
  let ?c = "\<lambda>a b. localeCompare pf (e_date a) (e_date b)"
  have c: "consistent_comparator ?c" using cc by (rule consistent_on_field)
  have srt: "sorted_wrt (\<lambda>a b. ?c a b \<le> 0) (Array_sort ?c evs)"
    using c by (rule sorted_Array_sort)
  have 1: "sorted_wrt (\<lambda>a b. ?c a b \<le> 0) (filteredEvents pf evs srch)"
    using srt by (simp add: filteredEvents_unfold sorted_wrt_filter_keep)
  have 2: "toLowerCase pf (trim srch) = [] \<longrightarrow> mset (filteredEvents pf evs srch) = mset evs"
    by (simp add: filteredEvents_unfold mset_Array_sort)
  have comm: "\<And>P xs. filter (\<lambda>e. e_date e = d) (filter P xs) = filter P (filter (\<lambda>e. e_date e = d) xs)"
    by (auto intro: filter_cong)
  have 3: "filter (\<lambda>e. e_date e = d) (filteredEvents pf evs srch) =
       (if toLowerCase pf (trim srch) = [] then filter (\<lambda>e. e_date e = d) evs
        else filter (\<lambda>e. str_includes (toLowerCase pf (e_name e)) (toLowerCase pf (trim srch)))
               (filter (\<lambda>e. e_date e = d) evs))"
  proof (cases "toLowerCase pf (trim srch) = []")
    case True
    then show ?thesis by (simp add: filteredEvents_unfold Array_sort_same_date [OF cc])
  next
    case False
    let ?M = "\<lambda>e. str_includes (toLowerCase pf (e_name e)) (toLowerCase pf (trim srch))"
    have "filter (\<lambda>e. e_date e = d) (filter ?M (Array_sort ?c evs))
        = filter ?M (filter (\<lambda>e. e_date e = d) (Array_sort ?c evs))"
      by (rule comm)
    also have "\<dots> = filter ?M (filter (\<lambda>e. e_date e = d) evs)"
      using Array_sort_same_date [OF cc, of d evs] by (rule arg_cong)
    finally show ?thesis using False by (simp only: filteredEvents_unfold if_False)
  qed
  have 4: "localeCompare pf (js ''2024-01-01'') (js ''2025-01-01'') < 0 \<and> toLowerCase pf [] = [] \<longrightarrow>
        map e_name (filteredEvents pf
          (events (addEvent s2 (js ''A'') (js ''2024-01-01'')
                    (addEvent s1 (js ''B'') (js ''2025-01-01'') initial_state))) [])
        = [js ''A'', js ''B'']"
  proof
    assume h: "localeCompare pf (js ''2024-01-01'') (js ''2025-01-01'') < 0 \<and> toLowerCase pf [] = []"
    then have "localeCompare pf (js ''2025-01-01'') (js ''2024-01-01'') > 0"
      using cc_lt_swap [OF cc] by blast
    with h show "map e_name (filteredEvents pf
          (events (addEvent s2 (js ''A'') (js ''2024-01-01'')
                    (addEvent s1 (js ''B'') (js ''2025-01-01'') initial_state))) [])
        = [js ''A'', js ''B'']"
      by (simp add: filteredEvents_unfold addEvent_def initial_state_def Array_sort_def trim_literals)
  qed
  from 1 2 3 4 show ?thesis by blast
qed

theorem filteredEvents_sorted_stable_witness:
  "consistent_comparator (localeCompare test_platform)
   \<and> localeCompare test_platform (js ''2024-01-01'') (js ''2025-01-01'') < 0
   \<and> toLowerCase test_platform (trim []) = []
   \<and> map e_name (filteredEvents test_platform
       (events (addEvent \<lparr>randomUUID = Some (js ''u2''), Date_now = 0, Math_random_36 = []\<rparr>
                  (js ''A'') (js ''2024-01-01'')
                 (addEvent \<lparr>randomUUID = Some (js ''u1''), Date_now = 0, Math_random_36 = []\<rparr>
                    (js ''B'') (js ''2025-01-01'') initial_state))) [])
     = [js ''A'', js ''B'']
   \<and> mset (filteredEvents test_platform
       (events (addEvent \<lparr>randomUUID = Some (js ''u2''), Date_now = 0, Math_random_36 = []\<rparr>
                  (js ''A'') (js ''2024-01-01'')
                 (addEvent \<lparr>randomUUID = Some (js ''u1''), Date_now = 0, Math_random_36 = []\<rparr>
                    (js ''B'') (js ''2025-01-01'') initial_state))) [])
     = mset (events (addEvent \<lparr>randomUUID = Some (js ''u2''), Date_now = 0, Math_random_36 = []\<rparr>
                  (js ''A'') (js ''2024-01-01'')
                 (addEvent \<lparr>randomUUID = Some (js ''u1''), Date_now = 0, Math_random_36 = []\<rparr>
                    (js ''B'') (js ''2025-01-01'') initial_state)))"
proof -
  have cc: "consistent_comparator (localeCompare test_platform)"
    by (simp add: test_platform_def consistent_codeunit_compare)
  have lt: "localeCompare test_platform (js ''2024-01-01'') (js ''2025-01-01'') < 0"
    by (simp add: test_platform_def js_def)
  have lo: "toLowerCase test_platform (trim []) = []"
    by (simp add: test_platform_def ascii_toLowerCase_def trim_literals)
  have lo': "toLowerCase test_platform [] = []"
    by (simp add: test_platform_def ascii_toLowerCase_def)
  show ?thesis
    using cc lt lo lo'
      filteredEvents_sorted_stable [OF cc,
        of "events (addEvent \<lparr>randomUUID = Some (js ''u2''), Date_now = 0, Math_random_36 = []\<rparr>
                  (js ''A'') (js ''2024-01-01'')
                 (addEvent \<lparr>randomUUID = Some (js ''u1''), Date_now = 0, Math_random_36 = []\<rparr>
                    (js ''B'') (js ''2025-01-01'') initial_state))" "[]" "js ''2024-01-01''"
           "\<lparr>randomUUID = Some (js ''u2''), Date_now = 0, Math_random_36 = []\<rparr>"
           "\<lparr>randomUUID = Some (js ''u1''), Date_now = 0, Math_random_36 = []\<rparr>"]
    by simp
qed

subsection \<open>Searching\<close>

lemma set_Array_sort: "set (Array_sort c xs) = set xs"
  using mset_Array_sort [of c xs] by (metis set_mset_mset)

text \<open>
  C3, as the code has it: the search text is trimmed before it is used. When the trimmed
  text is empty the view is the whole sorted list; otherwise it holds, in sorted order,
  exactly the events whose lowercased name contains the lowercased trimmed text as a
  substring. With events named Team Meeting and Launch Party, searching for team shows
  Team Meeting alone. \<^verbatim>\<open>toLowerCase\<close> is taken to give the empty string for the empty
  string only.
\<close>

theorem filteredEvents_search_trimmed:
  assumes lower: "\<And>s. (toLowerCase pf s = []) = (s = [])"
  shows "filteredEvents pf evs srch =
      (if trim srch = [] then Array_sort (\<lambda>a b. localeCompare pf (e_date a) (e_date b)) evs
       else filter (\<lambda>e. str_includes (toLowerCase pf (e_name e)) (toLowerCase pf (trim srch)))
              (Array_sort (\<lambda>a b. localeCompare pf (e_date a) (e_date b)) evs))
   \<and> (e \<in> set (filteredEvents pf evs srch) \<longleftrightarrow>
        e \<in> set evs \<and>
        (trim srch = [] \<or> (\<exists>ps ss. toLowerCase pf (e_name e) = ps @ toLowerCase pf (trim srch) @ ss)))
   \<and> filteredEvents pf evs [] = Array_sort (\<lambda>a b. localeCompare pf (e_date a) (e_date b)) evs
   \<and> (toLowerCase pf (js ''Team Meeting'') = js ''team meeting''
        \<and> toLowerCase pf (js ''Launch Party'') = js ''launch party''
        \<and> toLowerCase pf (js ''team'') = js ''team'' \<longrightarrow>
      filteredEvents pf
        [\<lparr>e_id = i1, e_name = js ''Team Meeting'', e_date = d1\<rparr>,
         \<lparr>e_id = i2, e_name = js ''Launch Party'', e_date = d2\<rparr>] (js ''team'')
      = [\<lparr>e_id = i1, e_name = js ''Team Meeting'', e_date = d1\<rparr>])"
proof -
  have 1: "filteredEvents pf evs srch =
      (if trim srch = [] then Array_sort (\<lambda>a b. localeCompare pf (e_date a) (e_date b)) evs
       else filter (\<lambda>e. str_includes (toLowerCase pf (e_name e)) (toLowerCase pf (trim srch)))
              (Array_sort (\<lambda>a b. localeCompare pf (e_date a) (e_date b)) evs))"
    by (simp add: filteredEvents_unfold lower)
  have 2: "e \<in> set (filteredEvents pf evs srch) \<longleftrightarrow>
        e \<in> set evs \<and>
        (trim srch = [] \<or> (\<exists>ps ss. toLowerCase pf (e_name e) = ps @ toLowerCase pf (trim srch) @ ss))"
    by (auto simp: 1 set_Array_sort str_includes_iff)
  have 3: "filteredEvents pf evs [] = Array_sort (\<lambda>a b. localeCompare pf (e_date a) (e_date b)) evs"
    by (simp add: filteredEvents_unfold lower trim_literals)
  have t: "trim (js ''team'') = js ''team''"
    by (simp add: trim_def trimEnd_def trimStart_def js_def isWhiteSpace_def)
  have yes: "str_includes (js ''team meeting'') (js ''team'')"
    by (simp add: js_def)
  have no: "\<not> str_includes (js ''launch party'') (js ''team'')"
    by (simp add: js_def)
  have ne: "js ''team'' \<noteq> []" by (simp add: js_def)
  have 4: "toLowerCase pf (js ''Team Meeting'') = js ''team meeting''
        \<and> toLowerCase pf (js ''Launch Party'') = js ''launch party''
        \<and> toLowerCase pf (js ''team'') = js ''team'' \<longrightarrow>
      filteredEvents pf
        [\<lparr>e_id = i1, e_name = js ''Team Meeting'', e_date = d1\<rparr>,
         \<lparr>e_id = i2, e_name = js ''Launch Party'', e_date = d2\<rparr>] (js ''team'')
      = [\<lparr>e_id = i1, e_name = js ''Team Meeting'', e_date = d1\<rparr>]"
    using yes no ne by (simp add: filteredEvents_unfold t Array_sort_def)
  from 1 2 3 4 show ?thesis by blast
qed

theorem filteredEvents_search_trimmed_witness:
  "toLowerCase test_platform (js ''Team Meeting'') = js ''team meeting''
   \<and> toLowerCase test_platform (js ''Launch Party'') = js ''launch party''
   \<and> toLowerCase test_platform (js ''team'') = js ''team''
   \<and> filteredEvents test_platform
        [\<lparr>e_id = js ''1'', e_name = js ''Team Meeting'', e_date = js ''2025-01-01''\<rparr>,
         \<lparr>e_id = js ''2'', e_name = js ''Launch Party'', e_date = js ''2024-01-01''\<rparr>] (js ''team'')
      = [\<lparr>e_id = js ''1'', e_name = js ''Team Meeting'', e_date = js ''2025-01-01''\<rparr>]"
proof -
  have lower: "\<And>s. (toLowerCase test_platform s = []) = (s = [])"
    by (simp add: test_platform_def ascii_toLowerCase_empty)
  have l: "toLowerCase test_platform (js ''Team Meeting'') = js ''team meeting''"
    "toLowerCase test_platform (js ''Launch Party'') = js ''launch party''"
    "toLowerCase test_platform (js ''team'') = js ''team''"
    by (simp_all add: test_platform_def ascii_toLowerCase_def js_def)
  show ?thesis
    using l filteredEvents_search_trimmed [OF lower, of
        "[\<lparr>e_id = js ''1'', e_name = js ''Team Meeting'', e_date = js ''2025-01-01''\<rparr>,
         \<lparr>e_id = js ''2'', e_name = js ''Launch Party'', e_date = js ''2024-01-01''\<rparr>]"
        "js ''team''"
        "\<lparr>e_id = js ''1'', e_name = js ''Team Meeting'', e_date = js ''2025-01-01''\<rparr>"
        "js ''1''" "js ''2025-01-01''" "js ''2''" "js ''2024-01-01''"]
    by blast
qed

text \<open>
  The claim as written matches the names against the search text as typed. The search
  text \<open>'' team''\<close> is not empty and the view shows Team Meeting, whose name does not
  contain it, in any case of the letters.
\<close>

theorem search_as_typed_counterexample:
  "js '' team'' \<noteq> []
   \<and> filteredEvents test_platform
        [\<lparr>e_id = js ''1'', e_name = js ''Team Meeting'', e_date = js ''2025-01-01''\<rparr>] (js '' team'')
      = [\<lparr>e_id = js ''1'', e_name = js ''Team Meeting'', e_date = js ''2025-01-01''\<rparr>]
   \<and> \<not> str_includes (toLowerCase test_platform (js ''Team Meeting''))
          (toLowerCase test_platform (js '' team''))"
  by (simp add: filteredEvents_unfold test_platform_def ascii_toLowerCase_def js_def
      trim_def trimEnd_def trimStart_def isWhiteSpace_def Array_sort_def)

text \<open>
  C10: the search text is trimmed before matching. The view for a search text is the
  view for its trimmed form; white space added before and after a search text does not
  change the view; a search text of white space only gives the view of the empty search
  text, which is the whole sorted list.
\<close>

theorem filteredEvents_ignores_outer_whitespace:
  "filteredEvents pf evs srch = filteredEvents pf evs (trim srch)
   \<and> (list_all isWhiteSpace l \<and> list_all isWhiteSpace r \<longrightarrow>
        filteredEvents pf evs (l @ srch @ r) = filteredEvents pf evs srch)
   \<and> (list_all isWhiteSpace srch \<longrightarrow> filteredEvents pf evs srch = filteredEvents pf evs [])
   \<and> (list_all isWhiteSpace srch \<and> toLowerCase pf [] = [] \<longrightarrow>
        filteredEvents pf evs srch
        = Array_sort (\<lambda>a b. localeCompare pf (e_date a) (e_date b)) evs)"
  by (simp add: filteredEvents_unfold trim_idem trim_padded trim_whitespace trim_literals)

theorem filteredEvents_ignores_outer_whitespace_witness:
  "list_all isWhiteSpace (js '' '') \<and> list_all isWhiteSpace (js ''  '')
   \<and> filteredEvents test_platform
        [\<lparr>e_id = js ''1'', e_name = js ''Team Meeting'', e_date = js ''2025-01-01''\<rparr>,
         \<lparr>e_id = js ''2'', e_name = js ''Launch Party'', e_date = js ''2024-01-01''\<rparr>]
        (js '' '' @ js ''team'' @ js ''  '')
      = [\<lparr>e_id = js ''1'', e_name = js ''Team Meeting'', e_date = js ''2025-01-01''\<rparr>]
   \<and> list_all isWhiteSpace (js ''   '') \<and> toLowerCase test_platform [] = []
   \<and> filteredEvents test_platform
        [\<lparr>e_id = js ''1'', e_name = js ''Team Meeting'', e_date = js ''2025-01-01''\<rparr>,
         \<lparr>e_id = js ''2'', e_name = js ''Launch Party'', e_date = js ''2024-01-01''\<rparr>]
        (js ''   '')
      = [\<lparr>e_id = js ''2'', e_name = js ''Launch Party'', e_date = js ''2024-01-01''\<rparr>,
         \<lparr>e_id = js ''1'', e_name = js ''Team Meeting'', e_date = js ''2025-01-01''\<rparr>]"
proof -
  have w: "list_all isWhiteSpace (js '' '')" "list_all isWhiteSpace (js ''  '')"
    "list_all isWhiteSpace (js ''   '')"
    by (simp_all add: js_def isWhiteSpace_def)
  have lo: "toLowerCase test_platform [] = []"
    by (simp add: test_platform_def ascii_toLowerCase_def)
  have direct: "filteredEvents test_platform
        [\<lparr>e_id = js ''1'', e_name = js ''Team Meeting'', e_date = js ''2025-01-01''\<rparr>,
         \<lparr>e_id = js ''2'', e_name = js ''Launch Party'', e_date = js ''2024-01-01''\<rparr>]
        (js ''team'')
      = [\<lparr>e_id = js ''1'', e_name = js ''Team Meeting'', e_date = js ''2025-01-01''\<rparr>]"
    by (simp add: filteredEvents_unfold test_platform_def ascii_toLowerCase_def js_def
      trim_def trimEnd_def trimStart_def isWhiteSpace_def Array_sort_def)
  have sorted: "Array_sort (\<lambda>a b. localeCompare test_platform (e_date a) (e_date b))
        [\<lparr>e_id = js ''1'', e_name = js ''Team Meeting'', e_date = js ''2025-01-01''\<rparr>,
         \<lparr>e_id = js ''2'', e_name = js ''Launch Party'', e_date = js ''2024-01-01''\<rparr>]
      = [\<lparr>e_id = js ''2'', e_name = js ''Launch Party'', e_date = js ''2024-01-01''\<rparr>,
         \<lparr>e_id = js ''1'', e_name = js ''Team Meeting'', e_date = js ''2025-01-01''\<rparr>]"
    by (simp add: test_platform_def js_def Array_sort_def)
  have a: "filteredEvents test_platform
        [\<lparr>e_id = js ''1'', e_name = js ''Team Meeting'', e_date = js ''2025-01-01''\<rparr>,
         \<lparr>e_id = js ''2'', e_name = js ''Launch Party'', e_date = js ''2024-01-01''\<rparr>]
        (js '' '' @ js ''team'' @ js ''  '')
      = filteredEvents test_platform
        [\<lparr>e_id = js ''1'', e_name = js ''Team Meeting'', e_date = js ''2025-01-01''\<rparr>,
         \<lparr>e_id = js ''2'', e_name = js ''Launch Party'', e_date = js ''2024-01-01''\<rparr>]
        (js ''team'')"
    using w filteredEvents_ignores_outer_whitespace [of test_platform
        "[\<lparr>e_id = js ''1'', e_name = js ''Team Meeting'', e_date = js ''2025-01-01''\<rparr>,
         \<lparr>e_id = js ''2'', e_name = js ''Launch Party'', e_date = js ''2024-01-01''\<rparr>]"
        "js ''team''" "js '' ''" "js ''  ''"]
    by blast
  have b: "filteredEvents test_platform
        [\<lparr>e_id = js ''1'', e_name = js ''Team Meeting'', e_date = js ''2025-01-01''\<rparr>,
         \<lparr>e_id = js ''2'', e_name = js ''Launch Party'', e_date = js ''2024-01-01''\<rparr>]
        (js ''   '')
      = Array_sort (\<lambda>a b. localeCompare test_platform (e_date a) (e_date b))
        [\<lparr>e_id = js ''1'', e_name = js ''Team Meeting'', e_date = js ''2025-01-01''\<rparr>,
         \<lparr>e_id = js ''2'', e_name = js ''Launch Party'', e_date = js ''2024-01-01''\<rparr>]"
    using w lo filteredEvents_ignores_outer_whitespace [of test_platform
        "[\<lparr>e_id = js ''1'', e_name = js ''Team Meeting'', e_date = js ''2025-01-01''\<rparr>,
         \<lparr>e_id = js ''2'', e_name = js ''Launch Party'', e_date = js ''2024-01-01''\<rparr>]"
        "js ''   ''" "[]" "[]"]
    by blast
  from a direct have a': "filteredEvents test_platform
        [\<lparr>e_id = js ''1'', e_name = js ''Team Meeting'', e_date = js ''2025-01-01''\<rparr>,
         \<lparr>e_id = js ''2'', e_name = js ''Launch Party'', e_date = js ''2024-01-01''\<rparr>]
        (js '' '' @ js ''team'' @ js ''  '')
      = [\<lparr>e_id = js ''1'', e_name = js ''Team Meeting'', e_date = js ''2025-01-01''\<rparr>]"
    by (rule trans)
  from b sorted have b': "filteredEvents test_platform
        [\<lparr>e_id = js ''1'', e_name = js ''Team Meeting'', e_date = js ''2025-01-01''\<rparr>,
         \<lparr>e_id = js ''2'', e_name = js ''Launch Party'', e_date = js ''2024-01-01''\<rparr>]
        (js ''   '')
      = [\<lparr>e_id = js ''2'', e_name = js ''Launch Party'', e_date = js ''2024-01-01''\<rparr>,
         \<lparr>e_id = js ''1'', e_name = js ''Team Meeting'', e_date = js ''2025-01-01''\<rparr>]"
    by (rule trans)
  from w lo a' b' show ?thesis by blast
qed

subsection \<open>Validation and submission\<close>

lemma isValidISODate_iff:
  "isValidISODate pf v \<longleftrightarrow> iso_pattern_test v \<and> Date_parse pf v \<noteq> None"
  by (simp add: isValidISODate_def)

lemma iso_pattern_nonempty: "iso_pattern_test v \<Longrightarrow> v \<noteq> []"
  by (auto simp: iso_pattern_test_def)

lemma register_date_None: "register_date pf v = None \<longleftrightarrow> isValidISODate pf v"
  using iso_pattern_nonempty [of v] by (auto simp: register_date_def isValidISODate_def)

lemma register_name_None: "register_name n = None \<longleftrightarrow> trim n \<noteq> [] \<and> length n \<le> 200"
  by (auto simp: register_name_def trim_def trimEnd_def trimStart_def)

lemma pattern_2025_13_40:
  "iso_pattern_test (js ''2025-13-40'')" "date_fields (js ''2025-13-40'') = (2025, 13, 40)"
  by (simp_all add: iso_pattern_test_def isDigit_def date_fields_def digits_value_def js_def)

lemma pattern_2025_02_30:
  "iso_pattern_test (js ''2025-02-30'')" "date_fields (js ''2025-02-30'') = (2025, 2, 30)"
  by (simp_all add: iso_pattern_test_def isDigit_def date_fields_def digits_value_def js_def)

lemma pattern_2024_02_29:
  "iso_pattern_test (js ''2024-02-29'')" "date_fields (js ''2024-02-29'') = (2024, 2, 29)"
  by (simp_all add: iso_pattern_test_def isDigit_def date_fields_def digits_value_def js_def)

lemma ecma_accepts:
  "ecma_date_only parse \<Longrightarrow> iso_pattern_test v \<Longrightarrow> date_fields v = (y, m, d) \<Longrightarrow>
   calendar_date y m d \<Longrightarrow> parse v \<noteq> None"
  unfolding ecma_date_only_def by fastforce

lemma ecma_rejects:
  "ecma_date_only parse \<Longrightarrow> iso_pattern_test v \<Longrightarrow> date_fields v = (y, m, d) \<Longrightarrow>
   parse v \<noteq> None \<Longrightarrow> 1 \<le> m \<and> m \<le> 12 \<and> 1 \<le> d \<and> d \<le> 31"
  unfolding ecma_date_only_def by fastforce

lemma handleSubmit_blocked:
  "register_name n \<noteq> None \<or> register_date pf v \<noteq> None \<Longrightarrow>
   handleSubmit pf src \<lparr>f_name = n, f_date = v\<rparr> state
   = Blocked (register_name n) (register_date pf v)"
  by (auto simp: handleSubmit_def split: option.splits)

lemma handleSubmit_submitted:
  assumes n: "register_name n = None" and v: "register_date pf v = None"
  shows "handleSubmit pf src \<lparr>f_name = n, f_date = v\<rparr> state
   = Submitted (addEvent src (trim n) v state) defaultValues"
proof -
  from n have "trim n \<noteq> []" by (simp add: register_name_None)
  moreover from v have "v \<noteq> []" by (auto simp: register_date_def split: if_splits)
  ultimately show ?thesis using n v by (simp add: handleSubmit_def onSubmit_def Let_def)
qed

text \<open>
  What the validation does on every engine. A date passes iff it matches the pattern and
  \<^verbatim>\<open>new Date\<close> gives a time value: each date of the calendar written in the pattern
  passes, and a month outside 01..12 or a day outside 01..31 does not, so 2025-13-40 is
  rejected. A name passes iff it is not empty after trimming and has at most 200 code
  units as typed; three spaces are rejected. A field that does not pass blocks the
  submission: \<^verbatim>\<open>onSubmit\<close>, and with it \<^verbatim>\<open>addEvent\<close>, is not called. When both pass, the
  event is added with the trimmed name and the form is reset.
\<close>

theorem form_validation_rules:
  assumes ecma: "ecma_date_only (Date_parse pf)"
  shows "(isValidISODate pf v \<longleftrightarrow> iso_pattern_test v \<and> Date_parse pf v \<noteq> None)
   \<and> (iso_pattern_test v \<and> date_fields v = (y, m, d) \<and> calendar_date y m d \<longrightarrow>
        isValidISODate pf v)
   \<and> (isValidISODate pf v \<and> date_fields v = (y, m, d) \<longrightarrow>
        1 \<le> m \<and> m \<le> 12 \<and> 1 \<le> d \<and> d \<le> 31)
   \<and> \<not> isValidISODate pf (js ''2025-13-40'')
   \<and> (register_date pf v = None \<longleftrightarrow> isValidISODate pf v)
   \<and> (register_name n = None \<longleftrightarrow> trim n \<noteq> [] \<and> length n \<le> 200)
   \<and> register_name (js ''   '') = Some (js ''Event name cannot be empty'')
   \<and> (register_name n \<noteq> None \<or> register_date pf v \<noteq> None \<longrightarrow>
        handleSubmit pf src \<lparr>f_name = n, f_date = v\<rparr> state
        = Blocked (register_name n) (register_date pf v))
   \<and> (register_name n = None \<and> register_date pf v = None \<longrightarrow>
        handleSubmit pf src \<lparr>f_name = n, f_date = v\<rparr> state
        = Submitted (addEvent src (trim n) v state) defaultValues)"
proof -
  have 2: "iso_pattern_test v \<and> date_fields v = (y, m, d) \<and> calendar_date y m d \<longrightarrow>
        isValidISODate pf v"
    using ecma_accepts [OF ecma, of v y m d] by (simp add: isValidISODate_iff)
  have 3: "isValidISODate pf v \<and> date_fields v = (y, m, d) \<longrightarrow>
        1 \<le> m \<and> m \<le> 12 \<and> 1 \<le> d \<and> d \<le> 31"
    using ecma_rejects [OF ecma, of v y m d] by (simp add: isValidISODate_iff)
  have 4: "\<not> isValidISODate pf (js ''2025-13-40'')"
  proof
    assume "isValidISODate pf (js ''2025-13-40'')"
    then have "Date_parse pf (js ''2025-13-40'') \<noteq> None" by (simp add: isValidISODate_iff)
    from ecma_rejects [OF ecma pattern_2025_13_40 this] show False by simp
  qed
  have 7: "register_name (js ''   '') = Some (js ''Event name cannot be empty'')"
    by (simp add: register_name_def trim_def trimEnd_def trimStart_def isWhiteSpace_def js_def)
  show ?thesis
    using 2 3 4 7 isValidISODate_iff [of pf v] register_date_None [of pf v]
      register_name_None [of n] handleSubmit_blocked [of n pf v src state]
      handleSubmit_submitted [of n pf v src state]
    by blast
qed

theorem form_validation_rules_witness:
  "ecma_date_only (Date_parse test_platform)
   \<and> iso_pattern_test (js ''2024-02-29'') \<and> date_fields (js ''2024-02-29'') = (2024, 2, 29)
   \<and> calendar_date 2024 2 29
   \<and> isValidISODate test_platform (js ''2024-02-29'')
   \<and> register_name (js '' Launch '') = None
   \<and> register_date test_platform (js ''2024-02-29'') = None
   \<and> handleSubmit test_platform
        \<lparr>randomUUID = Some (js ''u1''), Date_now = 0, Math_random_36 = []\<rparr>
        \<lparr>f_name = js '' Launch '', f_date = js ''2024-02-29''\<rparr> initial_state
      = Submitted \<lparr>events = [\<lparr>e_id = js ''u1'', e_name = js ''Launch'', e_date = js ''2024-02-29''\<rparr>],
                    search = []\<rparr> defaultValues
   \<and> register_date test_platform (js ''2025-13-40'') = Some (js ''Invalid date'')
   \<and> handleSubmit test_platform
        \<lparr>randomUUID = Some (js ''u1''), Date_now = 0, Math_random_36 = []\<rparr>
        \<lparr>f_name = js '' Launch '', f_date = js ''2025-13-40''\<rparr> initial_state
      = Blocked None (Some (js ''Invalid date''))"
proof -
  have ecma: "ecma_date_only (Date_parse test_platform)"
    by (simp add: test_platform_def ecma_v8_Date_parse)
  have cal: "calendar_date 2024 2 29"
    by (simp add: calendar_date_def days_in_month_def leap_year_def)
  have nm: "register_name (js '' Launch '') = None"
    by (simp add: register_name_def trim_def trimEnd_def trimStart_def isWhiteSpace_def js_def)
  have tr: "trim (js '' Launch '') = js ''Launch''"
    by (simp add: trim_def trimEnd_def trimStart_def isWhiteSpace_def js_def)
  note ok = form_validation_rules [OF ecma, of "js ''2024-02-29''" 2024 2 29 "js '' Launch ''"
      "\<lparr>randomUUID = Some (js ''u1''), Date_now = 0, Math_random_36 = []\<rparr>" initial_state]
  note bad = form_validation_rules [OF ecma, of "js ''2025-13-40''" 2025 13 40 "js '' Launch ''"
      "\<lparr>randomUUID = Some (js ''u1''), Date_now = 0, Math_random_36 = []\<rparr>" initial_state]
  have valid: "isValidISODate test_platform (js ''2024-02-29'')"
    using ok pattern_2024_02_29 cal by blast
  then have dt: "register_date test_platform (js ''2024-02-29'') = None"
    using ok by blast
  have sub: "handleSubmit test_platform
        \<lparr>randomUUID = Some (js ''u1''), Date_now = 0, Math_random_36 = []\<rparr>
        \<lparr>f_name = js '' Launch '', f_date = js ''2024-02-29''\<rparr> initial_state
      = Submitted (addEvent \<lparr>randomUUID = Some (js ''u1''), Date_now = 0, Math_random_36 = []\<rparr>
          (trim (js '' Launch '')) (js ''2024-02-29'') initial_state) defaultValues"
    using ok nm dt by blast
  have added: "addEvent \<lparr>randomUUID = Some (js ''u1''), Date_now = 0, Math_random_36 = []\<rparr>
          (trim (js '' Launch '')) (js ''2024-02-29'') initial_state
      = \<lparr>events = [\<lparr>e_id = js ''u1'', e_name = js ''Launch'', e_date = js ''2024-02-29''\<rparr>],
                    search = []\<rparr>"
    by (simp add: addEvent_def initial_state_def generateId_def tr trim_idem [of "js '' Launch ''", unfolded tr])
  have inv: "register_date test_platform (js ''2025-13-40'') = Some (js ''Invalid date'')"
    using bad by (auto simp: register_date_def js_def)
  have blk: "handleSubmit test_platform
        \<lparr>randomUUID = Some (js ''u1''), Date_now = 0, Math_random_36 = []\<rparr>
        \<lparr>f_name = js '' Launch '', f_date = js ''2025-13-40''\<rparr> initial_state
      = Blocked None (Some (js ''Invalid date''))"
    using bad inv nm by simp
  from ecma pattern_2024_02_29 cal valid nm dt sub [unfolded added] inv blk
  show ?thesis by blast
qed

text \<open>
  C5: a date is to pass only when it matches the pattern and is a date of the calendar.
  \<^verbatim>\<open>isValidISODate\<close> leaves the calendar to \<^verbatim>\<open>new Date\<close>, and on V8 that is not
  enough: 2025-02-30 matches the pattern, is no date of the calendar, and \<^verbatim>\<open>new Date\<close>
  gives the time value of 2 March 2025. The date field has no error, the form is
  submitted and the event is stored with the date 2025-02-30.
\<close>

theorem isValidISODate_accepts_2025_02_30:
  "iso_pattern_test (js ''2025-02-30'')
   \<and> date_fields (js ''2025-02-30'') = (2025, 2, 30)
   \<and> \<not> calendar_date 2025 2 30
   \<and> Date_parse test_platform (js ''2025-02-30'') = Some 1740873600000
   \<and> isValidISODate test_platform (js ''2025-02-30'')
   \<and> register_date test_platform (js ''2025-02-30'') = None
   \<and> handleSubmit test_platform
        \<lparr>randomUUID = Some (js ''u1''), Date_now = 0, Math_random_36 = []\<rparr>
        \<lparr>f_name = js ''Launch'', f_date = js ''2025-02-30''\<rparr> initial_state
      = Submitted \<lparr>events = [\<lparr>e_id = js ''u1'', e_name = js ''Launch'', e_date = js ''2025-02-30''\<rparr>],
                    search = []\<rparr> defaultValues"
proof -
  have p: "Date_parse test_platform (js ''2025-02-30'') = Some 1740873600000"
    by (simp add: test_platform_def v8_Date_parse_def pattern_2025_02_30 MakeDay_def
        DayFromYear_def days_in_month_def leap_year_def upt_rec)
  then have v: "isValidISODate test_platform (js ''2025-02-30'')"
    by (simp add: isValidISODate_iff pattern_2025_02_30)
  then have r: "register_date test_platform (js ''2025-02-30'') = None"
    by (simp add: register_date_None)
  have c: "\<not> calendar_date 2025 2 30"
    by (simp add: calendar_date_def days_in_month_def leap_year_def)
  have tr: "trim (js ''Launch'') = js ''Launch''"
    by (simp add: trim_def trimEnd_def trimStart_def isWhiteSpace_def js_def)
  have nm: "register_name (js ''Launch'') = None"
    by (simp add: register_name_None tr) (simp add: js_def)
  have added: "addEvent \<lparr>randomUUID = Some (js ''u1''), Date_now = 0, Math_random_36 = []\<rparr>
          (trim (js ''Launch'')) (js ''2025-02-30'') initial_state
      = \<lparr>events = [\<lparr>e_id = js ''u1'', e_name = js ''Launch'', e_date = js ''2025-02-30''\<rparr>],
                    search = []\<rparr>"
    by (simp add: addEvent_def initial_state_def generateId_def tr)
  have s: "handleSubmit test_platform
        \<lparr>randomUUID = Some (js ''u1''), Date_now = 0, Math_random_36 = []\<rparr>
        \<lparr>f_name = js ''Launch'', f_date = js ''2025-02-30''\<rparr> initial_state
      = Submitted \<lparr>events = [\<lparr>e_id = js ''u1'', e_name = js ''Launch'', e_date = js ''2025-02-30''\<rparr>],
                    search = []\<rparr> defaultValues"
    using handleSubmit_submitted [OF nm r] by (simp only: added)
  from pattern_2025_02_30 c p v r s show ?thesis by blast
qed

subsection \<open>Persistence and display\<close>

lemma event_of_json_event_json: "event_of_json (event_json (e :: EventItem)) = Some e"
  by (simp add: event_of_json_def event_json_def property_def js_def)

lemma events_of_list_event_json:
  "events_of_list (map event_json (es :: EventItem list)) = Some es"
  by (induction es) (simp_all add: event_of_json_event_json)

lemma merge_partialize:
  "merge (partialize state) current = Some (current\<lparr>events := events state\<rparr>)"
  by (simp add: merge_def partialize_def property_def events_of_list_event_json js_def)

lemma rehydrate_setItem:
  "rehydrate (setItem state st) current = Some (current\<lparr>events := events state\<rparr>)"
  by (simp add: rehydrate_def setItem_def storage_value_def property_def js_def merge_partialize)

text \<open>
  C7: writing the state to the storage and reading it back gives the same list of
  events: ids, names, dates and order. The rest of the state is the current one's.
\<close>

theorem persist_reload_roundtrip:
  "rehydrate (setItem state st) current = Some (current\<lparr>events := events state\<rparr>)
   \<and> rehydrate (setItem state st) initial_state = Some \<lparr>events = events state, search = []\<rparr>
   \<and> events_of_list (map event_json (events state)) = Some (events state)"
  by (simp add: rehydrate_setItem events_of_list_event_json initial_state_def)

text \<open>
  C8: the stored value is \<^verbatim>\<open>{state: {events: [...]}, version: 1}\<close>; the search text is
  not in it. \<open>setSearch\<close> changes neither the stored value nor the storage, and two
  states with the same events are stored as the same value.
\<close>

theorem persist_only_events:
  "storage_value state =
     JObject [(js ''state'', JObject [(js ''events'', JArray (map event_json (events state)))]),
              (js ''version'', JNumber 1)]
   \<and> storage_value (setSearch q state) = storage_value state
   \<and> setItem (setSearch q state) st = setItem state st
   \<and> (events s1 = events s2 \<longrightarrow> storage_value s1 = storage_value s2)"
  by (simp add: storage_value_def partialize_def setSearch_def setItem_def)

theorem persist_only_events_witness:
  "events \<lparr>events = [\<lparr>e_id = js ''1'', e_name = js ''A'', e_date = js ''2024-01-01''\<rparr>], search = js ''a''\<rparr>
   = events \<lparr>events = [\<lparr>e_id = js ''1'', e_name = js ''A'', e_date = js ''2024-01-01''\<rparr>], search = js ''zz''\<rparr>
   \<and> storage_value \<lparr>events = [\<lparr>e_id = js ''1'', e_name = js ''A'', e_date = js ''2024-01-01''\<rparr>], search = js ''a''\<rparr>
   = storage_value \<lparr>events = [\<lparr>e_id = js ''1'', e_name = js ''A'', e_date = js ''2024-01-01''\<rparr>], search = js ''zz''\<rparr>
   \<and> storage_value \<lparr>events = [\<lparr>e_id = js ''1'', e_name = js ''A'', e_date = js ''2024-01-01''\<rparr>], search = js ''a''\<rparr>
   = JObject [(js ''state'', JObject [(js ''events'',
        JArray [JObject [(js ''id'', JString (js ''1'')), (js ''name'', JString (js ''A'')),
                         (js ''date'', JString (js ''2024-01-01''))]])]),
      (js ''version'', JNumber 1)]"
proof -
  have same: "events \<lparr>events = [\<lparr>e_id = js ''1'', e_name = js ''A'', e_date = js ''2024-01-01''\<rparr>], search = js ''a''\<rparr>
   = events \<lparr>events = [\<lparr>e_id = js ''1'', e_name = js ''A'', e_date = js ''2024-01-01''\<rparr>], search = js ''zz''\<rparr>"
    by simp
  note inst = persist_only_events [of
      "\<lparr>events = [\<lparr>e_id = js ''1'', e_name = js ''A'', e_date = js ''2024-01-01''\<rparr>], search = js ''a''\<rparr>"
      "js ''zz''" Map.empty
      "\<lparr>events = [\<lparr>e_id = js ''1'', e_name = js ''A'', e_date = js ''2024-01-01''\<rparr>], search = js ''a''\<rparr>"
      "\<lparr>events = [\<lparr>e_id = js ''1'', e_name = js ''A'', e_date = js ''2024-01-01''\<rparr>], search = js ''zz''\<rparr>"]
  from inst same have eq: "storage_value \<lparr>events = [\<lparr>e_id = js ''1'', e_name = js ''A'', e_date = js ''2024-01-01''\<rparr>], search = js ''a''\<rparr>
   = storage_value \<lparr>events = [\<lparr>e_id = js ''1'', e_name = js ''A'', e_date = js ''2024-01-01''\<rparr>], search = js ''zz''\<rparr>"
    by blast
  have env: "storage_value \<lparr>events = [\<lparr>e_id = js ''1'', e_name = js ''A'', e_date = js ''2024-01-01''\<rparr>], search = js ''a''\<rparr>
   = JObject [(js ''state'', JObject [(js ''events'',
        JArray [JObject [(js ''id'', JString (js ''1'')), (js ''name'', JString (js ''A'')),
                         (js ''date'', JString (js ''2024-01-01''))]])]),
      (js ''version'', JNumber 1)]"
    by (simp add: storage_value_def partialize_def event_json_def)
  from same eq env show ?thesis by blast
qed

text \<open>
  C9: \<open>formatDate\<close> always returns a string. It is the stored string when that does not
  parse to a date and when the formatting throws; otherwise it is the string the locale
  formatting returns.
\<close>

theorem formatDate_never_fails:
  "(Date_parse pf s = None \<longrightarrow> formatDate pf s = s)
   \<and> (Date_parse pf s = Some t \<and> toLocaleDateString pf t = Inl err \<longrightarrow> formatDate pf s = s)
   \<and> (Date_parse pf s = Some t \<and> toLocaleDateString pf t = Inr out \<longrightarrow> formatDate pf s = out)
   \<and> (formatDate pf s = s
       \<or> (\<exists>t' out'. Date_parse pf s = Some t' \<and> toLocaleDateString pf t' = Inr out'
            \<and> formatDate pf s = out'))"
  by (auto simp: formatDate_def formatDate_try_def split: option.splits sum.splits)

theorem formatDate_never_fails_witness:
  "Date_parse test_platform (js ''not a date'') = None
   \<and> formatDate test_platform (js ''not a date'') = js ''not a date''
   \<and> Date_parse test_platform (js ''2024-01-05'') = Some 1704412800000
   \<and> toLocaleDateString test_platform 1704412800000 = Inr (js ''19727'')
   \<and> formatDate test_platform (js ''2024-01-05'') = js ''19727''
   \<and> toLocaleDateString (test_platform\<lparr>toLocaleDateString := \<lambda>t. Inl RangeError\<rparr>) 1704412800000
      = Inl RangeError
   \<and> formatDate (test_platform\<lparr>toLocaleDateString := \<lambda>t. Inl RangeError\<rparr>) (js ''2024-01-05'')
      = js ''2024-01-05''"
proof -
  have n: "Date_parse test_platform (js ''not a date'') = None"
    by (simp add: test_platform_def v8_Date_parse_def iso_pattern_test_def js_def)
  have p: "Date_parse test_platform (js ''2024-01-05'') = Some 1704412800000"
    by (simp add: test_platform_def v8_Date_parse_def iso_pattern_test_def isDigit_def
        date_fields_def digits_value_def js_def MakeDay_def DayFromYear_def)
  have f: "toLocaleDateString test_platform 1704412800000 = Inr (js ''19727'')"
    by (simp add: test_platform_def decimal.simps js_def)
  have p': "Date_parse (test_platform\<lparr>toLocaleDateString := \<lambda>t. Inl RangeError\<rparr>) (js ''2024-01-05'')
      = Some 1704412800000"
    using p by simp
  have e: "toLocaleDateString (test_platform\<lparr>toLocaleDateString := \<lambda>t. Inl RangeError\<rparr>) 1704412800000
      = Inl RangeError"
    by simp
  from n p f p' e
    formatDate_never_fails [of test_platform "js ''not a date''"]
    formatDate_never_fails [of test_platform "js ''2024-01-05''" 1704412800000 _ "js ''19727''"]
    formatDate_never_fails [of "test_platform\<lparr>toLocaleDateString := \<lambda>t. Inl RangeError\<rparr>"
      "js ''2024-01-05''" 1704412800000 RangeError]
  show ?thesis by blast
qed

end
